theory Spec2Isabelle
  imports Complex_Main "HOL-Library.Word" "HOL-Library.Sublist" "HOL-Library.Multiset"
begin

section \<open>The RPC service runtime of bitcoin v0.12.1: httpserver.cpp and scheduler.cpp\<close>

text \<open>
  The development embeds the parts of \<^verbatim>\<open>src/httpserver.cpp\<close> and of the scheduler
  (the second document of \<^verbatim>\<open>src/rpcnet.cpp\<close>) that the claims are about.
  Global variables of the C++ become fields of explicit state records, a failed
  \<^verbatim>\<open>assert\<close> and a thrown \<^verbatim>\<open>std::out_of_range\<close> become values of a sum type,
  and every critical section that runs under the object's mutex is one function.
\<close>

datatype error = AssertionFailed | OutOfRange | NullRequest

definition bindE :: "error + 'a \<Rightarrow> ('a \<Rightarrow> error + 'b) \<Rightarrow> error + 'b" where
  "bindE m f = (case m of Inl e \<Rightarrow> Inl e | Inr x \<Rightarrow> f x)"

subsection \<open>WorkQueue\<close>

text \<open>
  \<^verbatim>\<open>template <typename WorkItem> class WorkQueue\<close>: the deque of work items, the
  \<^verbatim>\<open>running\<close> flag, \<^verbatim>\<open>maxDepth\<close> (a \<^verbatim>\<open>size_t\<close>, only ever compared with
  \<^verbatim>\<open>queue.size()\<close>, so a natural number) and \<^verbatim>\<open>numThreads\<close>.
\<close>

record 'w WorkQueue =
  queue :: "'w list"
  running :: bool
  maxDepth :: nat
  numThreads :: int

text \<open>\<^verbatim>\<open>WorkQueue(size_t maxDepth) : running(true), maxDepth(maxDepth), numThreads(0)\<close>\<close>

definition WorkQueue_ctor :: "nat \<Rightarrow> 'w WorkQueue" where
  "WorkQueue_ctor d = \<lparr>queue = [], running = True, maxDepth = d, numThreads = 0\<rparr>"

text \<open>
  \<^verbatim>\<open>bool Enqueue(WorkItem* item)\<close>: the only test is \<^verbatim>\<open>queue.size() >= maxDepth\<close>;
  \<^verbatim>\<open>running\<close> is not read.
\<close>

definition Enqueue :: "'w WorkQueue \<Rightarrow> 'w \<Rightarrow> bool \<times> 'w WorkQueue" where
  "Enqueue wq item =
     (if length (queue wq) \<ge> maxDepth wq then (False, wq)
      else (True, wq\<lparr>queue := queue wq @ [item]\<rparr>))"

text \<open>\<^verbatim>\<open>void Interrupt()\<close>: \<^verbatim>\<open>running = false; cond.notify_all();\<close>\<close>

definition Interrupt :: "'w WorkQueue \<Rightarrow> 'w WorkQueue" where
  "Interrupt wq = wq\<lparr>running := False\<rparr>"

text \<open>\<^verbatim>\<open>size_t Depth()\<close>\<close>

definition Depth :: "'w WorkQueue \<Rightarrow> nat" where
  "Depth wq = length (queue wq)"

text \<open>
  The critical section of \<^verbatim>\<open>Run()\<close>, entered by a worker that found \<^verbatim>\<open>running\<close> true
  at the loop head:
  \<^verbatim>\<open>while (running && queue.empty()) cond.wait(lock); if (!running) break;
  i = queue.front(); queue.pop_front();\<close>
  The worker waits while the queue is running and empty (\<open>RunWait\<close>: no change), leaves
  the loop when the queue is not running (\<open>RunBreak\<close>), and otherwise pops the front.
\<close>

datatype 'w run_result = RunWait | RunBreak | RunItem 'w

definition Run_section :: "'w WorkQueue \<Rightarrow> 'w run_result \<times> 'w WorkQueue" where
  "Run_section wq =
     (if running wq \<and> queue wq = [] then (RunWait, wq)
      else if \<not> running wq then (RunBreak, wq)
      else (RunItem (hd (queue wq)), wq\<lparr>queue := tl (queue wq)\<rparr>))"

text \<open>\<^verbatim>\<open>ThreadCounter\<close>: constructor and destructor, each under the mutex.\<close>

definition ThreadCounter_ctor :: "'w WorkQueue \<Rightarrow> 'w WorkQueue" where
  "ThreadCounter_ctor wq = wq\<lparr>numThreads := numThreads wq + 1\<rparr>"

definition ThreadCounter_dtor :: "'w WorkQueue \<Rightarrow> 'w WorkQueue" where
  "ThreadCounter_dtor wq = wq\<lparr>numThreads := numThreads wq - 1\<rparr>"

text \<open>
  Every member function locks the one mutex \<^verbatim>\<open>cs\<close> for its whole body, so a history of
  the queue is a sequence of these critical sections in the order the mutex was taken.
\<close>

datatype 'w wq_op =
  OpEnqueue 'w | OpRunSection | OpInterrupt | OpThreadEnter | OpThreadExit

fun wq_apply :: "'w WorkQueue \<Rightarrow> 'w wq_op \<Rightarrow> 'w WorkQueue" where
  "wq_apply wq (OpEnqueue item) = snd (Enqueue wq item)"
| "wq_apply wq OpRunSection = snd (Run_section wq)"
| "wq_apply wq OpInterrupt = Interrupt wq"
| "wq_apply wq OpThreadEnter = ThreadCounter_ctor wq"
| "wq_apply wq OpThreadExit = ThreadCounter_dtor wq"

definition wq_history :: "nat \<Rightarrow> 'w wq_op list \<Rightarrow> 'w WorkQueue" where
  "wq_history d ops = foldl wq_apply (WorkQueue_ctor d) ops"

subsection \<open>HTTP status codes\<close>

text \<open>
  Modelled from the spec: \<^verbatim>\<open>HTTP_FORBIDDEN\<close> is defined in \<^verbatim>\<open>rpcprotocol.h\<close>, which is not
  among the sources; the specification gives status 403 for an unauthorized peer.
\<close>

definition HTTP_FORBIDDEN :: int where
  "HTTP_FORBIDDEN = 403"

text \<open>
  Modelled from the spec: \<^verbatim>\<open>HTTP_NOTFOUND\<close> is defined in \<^verbatim>\<open>rpcprotocol.h\<close>, which is not
  among the sources; the specification gives status 404 when no handler matches the URI.
\<close>

definition HTTP_NOTFOUND :: int where
  "HTTP_NOTFOUND = 404"

text \<open>
  Modelled from the spec: \<^verbatim>\<open>HTTP_BADMETHOD\<close> is defined in \<^verbatim>\<open>rpcprotocol.h\<close>, which is not
  among the sources; the specification gives status 405 for an unsupported method.
\<close>

definition HTTP_BADMETHOD :: int where
  "HTTP_BADMETHOD = 405"

text \<open>
  Modelled from the spec: \<^verbatim>\<open>HTTP_INTERNAL\<close> is defined in \<^verbatim>\<open>rpcprotocol.h\<close>, which is not
  among the sources; the specification gives status 500 for "Work queue depth exceeded"
  and "Unhandled request".
\<close>

definition HTTP_INTERNAL :: int where
  "HTTP_INTERNAL = 500"

subsection \<open>HTTPRequest\<close>

text \<open>
  libevent's \<^verbatim>\<open>struct evhttp_request\<close>, reduced to what \<^verbatim>\<open>HTTPRequest\<close> reads and
  writes: the command, the URI, the peer of the connection (absent when the request has no
  connection), the output headers and the output buffer.
\<close>

datatype evhttp_cmd_type =
  EVHTTP_REQ_GET | EVHTTP_REQ_POST | EVHTTP_REQ_HEAD | EVHTTP_REQ_PUT | EVHTTP_REQ_DELETE
| EVHTTP_REQ_OPTIONS | EVHTTP_REQ_TRACE | EVHTTP_REQ_CONNECT | EVHTTP_REQ_PATCH

record evhttp_request =
  command :: evhttp_cmd_type
  uri :: string
  connection_peer :: "(string \<times> 16 word) option"
  output_headers :: "(string \<times> string) list"
  output_buffer :: string

datatype RequestMethod = UNKNOWN | GET | POST | HEAD | PUT

text \<open>
  \<^verbatim>\<open>class HTTPRequest\<close>: the pointer \<^verbatim>\<open>req\<close> (\<open>None\<close> is the null pointer) and the flag
  \<^verbatim>\<open>replySent\<close>.
\<close>

record HTTPRequest =
  req :: "evhttp_request option"
  replySent :: bool

text \<open>\<^verbatim>\<open>HTTPRequest::HTTPRequest(struct evhttp_request* req) : req(req), replySent(false)\<close>\<close>

definition HTTPRequest_ctor :: "evhttp_request \<Rightarrow> HTTPRequest" where
  "HTTPRequest_ctor r = \<lparr>req = Some r, replySent = False\<rparr>"

text \<open>
  An \<^verbatim>\<open>HTTPEvent\<close> that \<^verbatim>\<open>WriteReply\<close> has triggered on the event base: the bound call
  \<^verbatim>\<open>evhttp_send_reply(req, nStatus, NULL, NULL)\<close>, which sends the status with the
  request's output buffer as the body. The event loop's pending events are a list.
\<close>

type_synonym reply_event = "evhttp_request \<times> int"

definition reply_status :: "reply_event \<Rightarrow> int" where
  "reply_status ev = snd ev"

definition reply_body :: "reply_event \<Rightarrow> string" where
  "reply_body ev = output_buffer (fst ev)"

text \<open>
  \<^verbatim>\<open>void HTTPRequest::WriteReply(int nStatus, const std::string& strReply)\<close>:
  \<^verbatim>\<open>assert(!replySent && req)\<close>, append the body to the output buffer, trigger the
  event, set \<^verbatim>\<open>replySent = true\<close> and \<^verbatim>\<open>req = 0\<close>.
\<close>

definition WriteReply ::
  "HTTPRequest \<Rightarrow> int \<Rightarrow> string \<Rightarrow> reply_event list \<Rightarrow> error + (HTTPRequest \<times> reply_event list)"
where
  "WriteReply h nStatus strReply evs =
     (case req h of
        None \<Rightarrow> Inl AssertionFailed
      | Some r \<Rightarrow>
          if replySent h then Inl AssertionFailed
          else Inr (h\<lparr>replySent := True, req := None\<rparr>,
                    evs @ [(r\<lparr>output_buffer := output_buffer r @ strReply\<rparr>, nStatus)]))"

text \<open>
  \<^verbatim>\<open>HTTPRequest::~HTTPRequest()\<close>:
  \<^verbatim>\<open>if (!replySent) WriteReply(HTTP_INTERNAL, "Unhandled request");\<close>
\<close>

definition HTTPRequest_dtor :: "HTTPRequest \<Rightarrow> reply_event list \<Rightarrow> error + reply_event list" where
  "HTTPRequest_dtor h evs =
     (if \<not> replySent h
      then bindE (WriteReply h HTTP_INTERNAL ''Unhandled request'' evs) (\<lambda>(h', evs'). Inr evs')
      else Inr evs)"

text \<open>\<^verbatim>\<open>void HTTPRequest::WriteHeader(const std::string& hdr, const std::string& value)\<close>\<close>

definition WriteHeader :: "HTTPRequest \<Rightarrow> string \<Rightarrow> string \<Rightarrow> error + HTTPRequest" where
  "WriteHeader h hdr val =
     (case req h of
        None \<Rightarrow> Inl NullRequest
      | Some r \<Rightarrow> Inr (h\<lparr>req := Some (r\<lparr>output_headers := output_headers r @ [(hdr, val)]\<rparr>)\<rparr>))"

text \<open>\<^verbatim>\<open>std::string HTTPRequest::GetURI()\<close>\<close>

definition GetURI :: "HTTPRequest \<Rightarrow> error + string" where
  "GetURI h = (case req h of None \<Rightarrow> Inl NullRequest | Some r \<Rightarrow> Inr (uri r))"

text \<open>\<^verbatim>\<open>HTTPRequest::RequestMethod HTTPRequest::GetRequestMethod()\<close>\<close>

definition GetRequestMethod :: "HTTPRequest \<Rightarrow> error + RequestMethod" where
  "GetRequestMethod h =
     (case req h of
        None \<Rightarrow> Inl NullRequest
      | Some r \<Rightarrow>
          Inr (case command r of
                 EVHTTP_REQ_GET \<Rightarrow> GET
               | EVHTTP_REQ_POST \<Rightarrow> POST
               | EVHTTP_REQ_HEAD \<Rightarrow> HEAD
               | EVHTTP_REQ_PUT \<Rightarrow> PUT
               | _ \<Rightarrow> UNKNOWN))"

text \<open>
  What a request's owner does with it between construction and destruction: calls of
  \<^verbatim>\<open>WriteReply\<close> and \<^verbatim>\<open>WriteHeader\<close>, in any number and order. A call that fails
  (an assertion, a null \<^verbatim>\<open>req\<close>) ends the run.
\<close>

datatype request_call = CallWriteReply int string | CallWriteHeader string string

fun request_calls ::
  "HTTPRequest \<Rightarrow> request_call list \<Rightarrow> reply_event list \<Rightarrow> error + (HTTPRequest \<times> reply_event list)"
where
  "request_calls h [] evs = Inr (h, evs)"
| "request_calls h (CallWriteReply nStatus strReply # cs) evs =
     bindE (WriteReply h nStatus strReply evs) (\<lambda>(h', evs'). request_calls h' cs evs')"
| "request_calls h (CallWriteHeader hdr val # cs) evs =
     bindE (WriteHeader h hdr val) (\<lambda>h'. request_calls h' cs evs)"

definition HTTPRequest_lifetime ::
  "evhttp_request \<Rightarrow> request_call list \<Rightarrow> reply_event list \<Rightarrow> error + reply_event list"
where
  "HTTPRequest_lifetime r cs evs =
     bindE (request_calls (HTTPRequest_ctor r) cs evs) (\<lambda>(h, evs'). HTTPRequest_dtor h evs')"

subsection \<open>The path-handler registry\<close>

text \<open>\<^verbatim>\<open>struct HTTPPathHandler\<close>; the handler closure is a value of any type \<open>'h\<close>.\<close>

record 'h HTTPPathHandler =
  prefix :: string
  exactMatch :: bool
  handler :: 'h

text \<open>
  \<^verbatim>\<open>std::string::substr(pos, n)\<close> and \<^verbatim>\<open>substr(pos)\<close>: they throw
  \<^verbatim>\<open>std::out_of_range\<close> when \<^verbatim>\<open>pos > size()\<close>.
\<close>

definition substr :: "string \<Rightarrow> nat \<Rightarrow> nat \<Rightarrow> error + string" where
  "substr s pos n = (if pos > length s then Inl OutOfRange else Inr (take n (drop pos s)))"

definition substr_from :: "string \<Rightarrow> nat \<Rightarrow> error + string" where
  "substr_from s pos = (if pos > length s then Inl OutOfRange else Inr (drop pos s))"

text \<open>
  The loop of \<^verbatim>\<open>http_request_cb\<close> under "Find registered handler for prefix": the
  result is the record the iterator stops at together with \<^verbatim>\<open>path\<close>, or \<open>None\<close> when
  the iterator reaches the end.
\<close>

fun find_handler ::
  "'h HTTPPathHandler list \<Rightarrow> string \<Rightarrow> error + ('h HTTPPathHandler \<times> string) option"
where
  "find_handler [] strURI = Inr None"
| "find_handler (i # rest) strURI =
     bindE (if exactMatch i then Inr (strURI = prefix i)
            else bindE (substr strURI 0 (length (prefix i))) (\<lambda>s. Inr (s = prefix i)))
       (\<lambda>match.
          if match
          then bindE (substr_from strURI (length (prefix i))) (\<lambda>path. Inr (Some (i, path)))
          else find_handler rest strURI)"

text \<open>\<^verbatim>\<open>RegisterHTTPHandler\<close>: \<^verbatim>\<open>pathHandlers.push_back(HTTPPathHandler(prefix, exactMatch, handler))\<close>\<close>

definition RegisterHTTPHandler ::
  "'h HTTPPathHandler list \<Rightarrow> string \<Rightarrow> bool \<Rightarrow> 'h \<Rightarrow> 'h HTTPPathHandler list"
where
  "RegisterHTTPHandler pathHandlers p e h =
     pathHandlers @ [\<lparr>prefix = p, exactMatch = e, handler = h\<rparr>]"

text \<open>
  \<^verbatim>\<open>UnregisterHTTPHandler\<close>: advance to the first record with
  \<^verbatim>\<open>i->prefix == prefix && i->exactMatch == exactMatch\<close> and erase it, if there is one.
\<close>

fun UnregisterHTTPHandler ::
  "'h HTTPPathHandler list \<Rightarrow> string \<Rightarrow> bool \<Rightarrow> 'h HTTPPathHandler list"
where
  "UnregisterHTTPHandler [] p e = []"
| "UnregisterHTTPHandler (i # rest) p e =
     (if prefix i = p \<and> exactMatch i = e then rest
      else i # UnregisterHTTPHandler rest p e)"

text \<open>
  The lookup as the specification words it: a record matches when it is exact and the URI
  equals its prefix, or it is not exact and the URI begins with its prefix; the first
  matching record in insertion order is returned with the portion of the URI after the
  prefix.
\<close>

definition matches_spec :: "'h HTTPPathHandler \<Rightarrow> string \<Rightarrow> bool" where
  "matches_spec r u = (if exactMatch r then u = prefix r else Sublist.prefix (prefix r) u)"

definition lookup_spec ::
  "'h HTTPPathHandler list \<Rightarrow> string \<Rightarrow> ('h HTTPPathHandler \<times> string) option"
where
  "lookup_spec hs u =
     (case find (\<lambda>r. matches_spec r u) hs of
        None \<Rightarrow> None
      | Some r \<Rightarrow> Some (r, drop (length (prefix r)) u))"

subsection \<open>Collaborators from netbase and util\<close>

text \<open>
  \<^verbatim>\<open>CNetAddr\<close>, \<^verbatim>\<open>CService\<close>, \<^verbatim>\<open>CSubNet\<close> and \<^verbatim>\<open>SplitHostPort\<close> are declared in
  \<^verbatim>\<open>netbase.h\<close>, which is not among the sources. The functions of theirs that
  \<^verbatim>\<open>httpserver.cpp\<close> calls are parameters: \<open>'a\<close> is the type of addresses
  (\<^verbatim>\<open>CService\<close>, a \<^verbatim>\<open>CNetAddr\<close> with a port), \<open>'s\<close> the type of subnets.
  \<open>SplitHostPort\<close> takes the string and the value its \<^verbatim>\<open>int& portOut\<close> argument holds
  at the call, and returns the value it holds afterwards together with \<^verbatim>\<open>hostOut\<close>.
\<close>

record ('a, 's) netbase =
  IsValid :: "'a \<Rightarrow> bool"
  Match :: "'s \<Rightarrow> 'a \<Rightarrow> bool"
  CService_default :: 'a
  CService_of :: "string \<Rightarrow> 16 word \<Rightarrow> 'a"
  CSubNet_of :: "string \<Rightarrow> 's"
  CSubNet_IsValid :: "'s \<Rightarrow> bool"
  SplitHostPort :: "string \<Rightarrow> 32 word \<Rightarrow> 32 word \<times> string"

text \<open>
  The configuration maps of \<^verbatim>\<open>util.h\<close>: \<^verbatim>\<open>mapArgs\<close> and \<^verbatim>\<open>mapMultiArgs\<close>.
  \<^verbatim>\<open>m.count(k)\<close> is nonzero iff \<open>k\<close> is in the domain; \<^verbatim>\<open>mapMultiArgs[k]\<close> is the
  empty vector for a key that is absent.
\<close>

record args =
  mapArgs :: "string \<rightharpoonup> string"
  mapMultiArgs :: "string \<rightharpoonup> string list"

definition multi_at :: "args \<Rightarrow> string \<Rightarrow> string list" where
  "multi_at a k = (case mapMultiArgs a k of None \<Rightarrow> [] | Some v \<Rightarrow> v)"

subsection \<open>The access-control list\<close>

text \<open>
  \<^verbatim>\<open>static bool ClientAllowed(const CNetAddr& netaddr)\<close>: the validity test comes first,
  then the loop over \<^verbatim>\<open>rpc_allow_subnets\<close> that returns true at the first match.
\<close>

primrec subnet_loop :: "('a, 's) netbase \<Rightarrow> 's list \<Rightarrow> 'a \<Rightarrow> bool" where
  "subnet_loop nb [] netaddr = False"
| "subnet_loop nb (subnet # rest) netaddr =
     (if Match nb subnet netaddr then True else subnet_loop nb rest netaddr)"

definition ClientAllowed :: "('a, 's) netbase \<Rightarrow> 's list \<Rightarrow> 'a \<Rightarrow> bool" where
  "ClientAllowed nb rpc_allow_subnets netaddr =
     (if \<not> IsValid nb netaddr then False else subnet_loop nb rpc_allow_subnets netaddr)"

text \<open>
  \<^verbatim>\<open>static bool InitHTTPAllowList()\<close>: the list is cleared, the two loopback subnets are
  pushed, then every \<^verbatim>\<open>-rpcallowip\<close> value in turn; an invalid one makes the function
  return false, the list holding what was pushed so far. The result is the return value
  and the new \<^verbatim>\<open>rpc_allow_subnets\<close>.
\<close>

fun push_allowed :: "('a, 's) netbase \<Rightarrow> string list \<Rightarrow> 's list \<Rightarrow> bool \<times> 's list" where
  "push_allowed nb [] subnets = (True, subnets)"
| "push_allowed nb (strAllow # rest) subnets =
     (let subnet = CSubNet_of nb strAllow in
      if \<not> CSubNet_IsValid nb subnet then (False, subnets)
      else push_allowed nb rest (subnets @ [subnet]))"

definition InitHTTPAllowList :: "('a, 's) netbase \<Rightarrow> args \<Rightarrow> bool \<times> 's list" where
  "InitHTTPAllowList nb a =
     (let subnets = [CSubNet_of nb ''127.0.0.0/8'', CSubNet_of nb ''::1''] in
      if ''-rpcallowip'' \<in> dom (mapMultiArgs a)
      then push_allowed nb (multi_at a ''-rpcallowip'') subnets
      else (True, subnets))"

subsection \<open>The generic request callback\<close>

text \<open>\<^verbatim>\<open>CService HTTPRequest::GetPeer()\<close>\<close>

definition GetPeer :: "('a, 's) netbase \<Rightarrow> HTTPRequest \<Rightarrow> error + 'a" where
  "GetPeer nb h =
     (case req h of
        None \<Rightarrow> Inl NullRequest
      | Some r \<Rightarrow>
          Inr (case connection_peer r of
                 None \<Rightarrow> CService_default nb
               | Some (address, port) \<Rightarrow> CService_of nb address port))"

text \<open>\<^verbatim>\<open>class HTTPWorkItem\<close>: the owned request, the path and the handler.\<close>

record 'h HTTPWorkItem =
  item_req :: HTTPRequest
  item_path :: string
  item_func :: 'h

text \<open>
  The module state that the callback reads and writes: \<^verbatim>\<open>rpc_allow_subnets\<close>,
  \<^verbatim>\<open>pathHandlers\<close>, the pointer \<^verbatim>\<open>workQueue\<close> (\<open>None\<close> is the null pointer), and the
  reply events triggered on \<^verbatim>\<open>eventBase\<close> so far.
\<close>

record ('s, 'h) http_state =
  rpc_allow_subnets :: "'s list"
  pathHandlers :: "'h HTTPPathHandler list"
  workQueue :: "'h HTTPWorkItem WorkQueue option"
  triggered :: "reply_event list"

text \<open>
  \<^verbatim>\<open>hreq->WriteReply(status, body); return;\<close> with the request owned by a smart pointer
  (\<^verbatim>\<open>std::auto_ptr<HTTPRequest>\<close>, or the \<^verbatim>\<open>boost::scoped_ptr\<close> of the work item): the
  reply is written and the request is destroyed when the pointer goes out of scope.
\<close>

definition reply_and_destroy ::
  "HTTPRequest \<Rightarrow> int \<Rightarrow> string \<Rightarrow> ('s, 'h) http_state \<Rightarrow> error + ('s, 'h) http_state"
where
  "reply_and_destroy h nStatus strReply st =
     bindE (WriteReply h nStatus strReply (triggered st)) (\<lambda>(h', evs).
     bindE (HTTPRequest_dtor h' evs) (\<lambda>evs'. Inr (st\<lparr>triggered := evs'\<rparr>)))"

text \<open>
  \<^verbatim>\<open>static void http_request_cb(struct evhttp_request* req, void* arg)\<close>. The default
  argument of \<^verbatim>\<open>WriteReply\<close> is the empty body.
\<close>

definition http_request_cb ::
  "('a, 's) netbase \<Rightarrow> evhttp_request \<Rightarrow> ('s, 'h) http_state \<Rightarrow> error + ('s, 'h) http_state"
where
  "http_request_cb nb ereq st =
     (let hreq = HTTPRequest_ctor ereq in
      bindE (GetPeer nb hreq) (\<lambda>peer.
      if \<not> ClientAllowed nb (rpc_allow_subnets st) peer
      then reply_and_destroy hreq HTTP_FORBIDDEN [] st
      else
      bindE (GetRequestMethod hreq) (\<lambda>m.
      if m = UNKNOWN
      then reply_and_destroy hreq HTTP_BADMETHOD [] st
      else
      bindE (GetURI hreq) (\<lambda>strURI.
      bindE (find_handler (pathHandlers st) strURI) (\<lambda>found.
      case found of
        Some (i, path) \<Rightarrow>
          (let item = \<lparr>item_req = hreq, item_path = path, item_func = handler i\<rparr> in
           case workQueue st of
             None \<Rightarrow> Inl AssertionFailed
           | Some wq \<Rightarrow>
               (case Enqueue wq item of
                  (True, wq') \<Rightarrow> Inr (st\<lparr>workQueue := Some wq'\<rparr>)
                | (False, wq') \<Rightarrow>
                    reply_and_destroy (item_req item) HTTP_INTERNAL
                      ''Work queue depth exceeded'' (st\<lparr>workQueue := Some wq'\<rparr>)))
      | None \<Rightarrow> reply_and_destroy hreq HTTP_NOTFOUND [] st)))))"

subsection \<open>Binding the listening sockets\<close>

text \<open>
  What \<^verbatim>\<open>LogPrintf\<close> writes in \<^verbatim>\<open>HTTPBindAddresses\<close>: the warning that \<^verbatim>\<open>-rpcbind\<close>
  was ignored, and the failure of a bind. (\<^verbatim>\<open>LogPrint("http", ...)\<close> is debug output.)
\<close>

datatype log_line = RpcbindIgnored | BindFailed string "16 word"

text \<open>
  The first half of \<^verbatim>\<open>HTTPBindAddresses\<close>, "Determine what addresses to bind to".
  \<^verbatim>\<open>defaultPort\<close> is an \<^verbatim>\<open>int\<close> (a 32-bit word read with \<open>sint\<close>); an endpoint
  holds a \<^verbatim>\<open>uint16_t\<close>, so \<^verbatim>\<open>std::make_pair\<close> into the vector truncates the port to
  16 bits.
\<close>

definition determine_endpoints ::
  "('a, 's) netbase \<Rightarrow> args \<Rightarrow> 32 word \<Rightarrow> (string \<times> 16 word) list \<times> log_line list"
where
  "determine_endpoints nb a defaultPort =
     (if ''-rpcallowip'' \<notin> dom (mapArgs a)
      then ([(''::1'', ucast defaultPort), (''127.0.0.1'', ucast defaultPort)],
            if ''-rpcbind'' \<in> dom (mapArgs a) then [RpcbindIgnored] else [])
      else if ''-rpcbind'' \<in> dom (mapArgs a)
      then (map (\<lambda>i. case SplitHostPort nb i defaultPort of (port, host) \<Rightarrow> (host, ucast port))
              (multi_at a ''-rpcbind''), [])
      else ([(''::'', ucast defaultPort), (''0.0.0.0'', ucast defaultPort)], []))"

text \<open>
  The second half, "Bind addresses". \<^verbatim>\<open>evhttp_bind_socket_with_handle\<close> is libevent's;
  it is a parameter that takes the state of the network stack \<open>'n\<close>, the address (\<open>None\<close>
  for the null pointer passed when the host is empty) and the port, and returns the
  handle, or \<open>None\<close> for a null handle, with the new state.
\<close>

fun bind_loop ::
  "('n \<Rightarrow> string option \<Rightarrow> 16 word \<Rightarrow> 'k option \<times> 'n) \<Rightarrow> (string \<times> 16 word) list
     \<Rightarrow> 'n \<Rightarrow> 'k list \<Rightarrow> log_line list \<Rightarrow> 'n \<times> 'k list \<times> log_line list"
where
  "bind_loop bind_socket [] net boundSockets lg = (net, boundSockets, lg)"
| "bind_loop bind_socket ((host, port) # rest) net boundSockets lg =
     (case bind_socket net (if host = [] then None else Some host) port of
        (Some bind_handle, net') \<Rightarrow>
          bind_loop bind_socket rest net' (boundSockets @ [bind_handle]) lg
      | (None, net') \<Rightarrow>
          bind_loop bind_socket rest net' boundSockets (lg @ [BindFailed host port]))"

text \<open>
  \<^verbatim>\<open>static bool HTTPBindAddresses(struct evhttp* http)\<close>: the result is the return value
  \<^verbatim>\<open>!boundSockets.empty()\<close>, the network state, the global \<^verbatim>\<open>boundSockets\<close> and the log.
\<close>

definition HTTPBindAddresses ::
  "('n \<Rightarrow> string option \<Rightarrow> 16 word \<Rightarrow> 'k option \<times> 'n) \<Rightarrow> ('a, 's) netbase \<Rightarrow> args
     \<Rightarrow> 32 word \<Rightarrow> 'n \<Rightarrow> 'k list \<Rightarrow> bool \<times> 'n \<times> 'k list \<times> log_line list"
where
  "HTTPBindAddresses bind_socket nb a defaultPort net boundSockets =
     (case determine_endpoints nb a defaultPort of
        (endpoints, lg) \<Rightarrow>
          (case bind_loop bind_socket endpoints net boundSockets lg of
             (net', boundSockets', lg') \<Rightarrow> (boundSockets' \<noteq> [], net', boundSockets', lg')))"

text \<open>
  The outcome of each call of the bind function, in the order of the endpoints: what
  "a bind succeeds" refers to.
\<close>

fun bind_outcomes ::
  "('n \<Rightarrow> string option \<Rightarrow> 16 word \<Rightarrow> 'k option \<times> 'n) \<Rightarrow> (string \<times> 16 word) list
     \<Rightarrow> 'n \<Rightarrow> 'k option list"
where
  "bind_outcomes bind_socket [] net = []"
| "bind_outcomes bind_socket ((host, port) # rest) net =
     (case bind_socket net (if host = [] then None else Some host) port of
        (r, net') \<Rightarrow> r # bind_outcomes bind_socket rest net')"

subsection \<open>Example instances of the parameters\<close>

text \<open>
  A small instance of the collaborators, used where a property is exercised at concrete
  inputs: addresses are a textual host with a port, valid when the host is not empty; a
  subnet is a textual prefix of the host; the bind function refuses the IPv6 addresses
  and hands out consecutive handles.
\<close>

definition example_netbase :: "(string \<times> 16 word, string) netbase" where
  "example_netbase =
     \<lparr>IsValid = (\<lambda>a. fst a \<noteq> []),
      Match = (\<lambda>s a. take (length s) (fst a) = s),
      CService_default = ([], 0),
      CService_of = (\<lambda>address port. (address, port)),
      CSubNet_of = (\<lambda>s. if s = ''127.0.0.0/8'' then ''127.'' else s),
      CSubNet_IsValid = (\<lambda>s. s \<noteq> []),
      SplitHostPort = (\<lambda>s port. (port, s))\<rparr>"

definition example_request :: "evhttp_cmd_type \<Rightarrow> string \<Rightarrow> string \<Rightarrow> evhttp_request" where
  "example_request c u address =
     \<lparr>command = c, uri = u, connection_peer = Some (address, 50000),
      output_headers = [], output_buffer = []\<rparr>"

definition example_state :: "nat \<Rightarrow> (string, nat) http_state" where
  "example_state d =
     \<lparr>rpc_allow_subnets = [''127.'', ''::1''],
      pathHandlers = [\<lparr>prefix = ''/'', exactMatch = True, handler = 1\<rparr>,
                      \<lparr>prefix = ''/rest/'', exactMatch = False, handler = 2\<rparr>],
      workQueue = Some (WorkQueue_ctor d),
      triggered = []\<rparr>"

definition example_bind :: "nat \<Rightarrow> string option \<Rightarrow> 16 word \<Rightarrow> nat option \<times> nat" where
  "example_bind net host port =
     (if host = Some ''::1'' \<or> host = Some ''::'' then (None, net) else (Some net, Suc net))"

definition example_args :: "bool \<Rightarrow> string list \<Rightarrow> args" where
  "example_args allow binds =
     \<lparr>mapArgs = (\<lambda>k. if k = ''-rpcallowip'' \<and> allow then Some ''10.0.0.0/8''
                     else if k = ''-rpcbind'' \<and> binds \<noteq> [] then Some (last binds)
                     else None),
      mapMultiArgs = (\<lambda>k. if k = ''-rpcallowip'' \<and> allow then Some [''10.0.0.0/8'']
                     else if k = ''-rpcbind'' \<and> binds \<noteq> [] then Some binds
                     else None)\<rparr>"

subsection \<open>CScheduler\<close>

text \<open>
  The scheduler is the second document of \<^verbatim>\<open>src/rpcnet.cpp\<close>. A time point of
  \<^verbatim>\<open>boost::chrono::system_clock\<close> is a signed 64-bit count of ticks of the clock
  (nanoseconds, the default of Boost.Chrono). The keys of the queue and the clock are
  written as real numbers; the service loop only compares them, whatever the unit. The
  calls that add \<^verbatim>\<open>deltaSeconds\<close> (an \<^verbatim>\<open>int64_t\<close>, a 64-bit word read with \<open>sint\<close>)
  to the clock do it in 64-bit nanoseconds.

  A \<^verbatim>\<open>CScheduler::Function\<close> is a closure. The closures that the scheduler itself
  builds are \<^verbatim>\<open>boost::bind(&Repeat, s, f, deltaSeconds)\<close>; they are the constructor
  \<open>RepeatFn\<close> (there is one scheduler, so the pointer \<open>s\<close> is left out). Every other
  closure is a user function, named by a value of type \<open>'f\<close>.
\<close>

datatype 'f Function = UserFn 'f | RepeatFn "'f Function" "64 word"

text \<open>
  \<^verbatim>\<open>class CScheduler\<close>: \<^verbatim>\<open>std::multimap<time_point, Function> taskQueue\<close> is the list of
  its entries in iteration order (ascending keys), and the three counters and flags.
\<close>

record 'f CScheduler =
  taskQueue :: "(real \<times> 'f Function) list"
  nThreadsServicingQueue :: int
  stopRequested :: bool
  stopWhenEmpty :: bool

definition CScheduler_ctor :: "'f CScheduler" where
  "CScheduler_ctor =
     \<lparr>taskQueue = [], nThreadsServicingQueue = 0, stopRequested = False, stopWhenEmpty = False\<rparr>"

text \<open>
  \<^verbatim>\<open>taskQueue.insert(std::make_pair(t, f))\<close>: the entry goes after the entries whose key
  is not greater (the upper bound of the equal range, as C++11 fixes it).
\<close>

fun multimap_insert ::
  "real \<Rightarrow> 'f Function \<Rightarrow> (real \<times> 'f Function) list \<Rightarrow> (real \<times> 'f Function) list"
where
  "multimap_insert t f [] = [(t, f)]"
| "multimap_insert t f ((k, g) # rest) =
     (if k \<le> t then (k, g) # multimap_insert t f rest else (t, f) # (k, g) # rest)"

text \<open>\<^verbatim>\<open>bool shouldStop() { return stopRequested || (stopWhenEmpty && taskQueue.empty()); }\<close>\<close>

definition shouldStop :: "'f CScheduler \<Rightarrow> bool" where
  "shouldStop s = (stopRequested s \<or> (stopWhenEmpty s \<and> taskQueue s = []))"

text \<open>\<^verbatim>\<open>void CScheduler::stop(bool drain)\<close>\<close>

definition stop :: "bool \<Rightarrow> 'f CScheduler \<Rightarrow> 'f CScheduler" where
  "stop drain s = (if drain then s\<lparr>stopWhenEmpty := True\<rparr> else s\<lparr>stopRequested := True\<rparr>)"

subsection \<open>serviceQueue run by several threads\<close>

text \<open>
  \<^verbatim>\<open>CScheduler::serviceQueue\<close> holds \<^verbatim>\<open>newTaskMutex\<close> except while it waits on the
  condition variable and while it calls the task (the comment in the source says so). What
  a thread does between taking the mutex and giving it up is one atomic step; the steps of
  the threads that service the queue and of the threads that call \<^verbatim>\<open>schedule\<close> and
  \<^verbatim>\<open>stop\<close> interleave in any order, and the clock moves forward between them.

  Where a service thread is when it does not hold the mutex: it has not called
  \<^verbatim>\<open>serviceQueue\<close> yet, it is in \<^verbatim>\<open>newTaskScheduled.wait(lock)\<close>, it is in
  \<^verbatim>\<open>wait_until(lock, t)\<close> for the key \<open>t\<close> it read, it is calling a task, or it has
  returned.
\<close>

datatype service_pc = NotStarted | InWait | InWaitUntil real | InCall | Returned

text \<open>
  The scheduler, the clock, the service threads, and two records that are not part of the
  program: the tasks posted so far, and the tasks taken for execution with the time at
  which each was taken.
\<close>

record 'f service =
  sched :: "'f CScheduler"
  time :: real
  pcs :: "service_pc list"
  posted :: "(real \<times> 'f Function) list"
  started :: "((real \<times> 'f Function) \<times> real) list"

text \<open>A new scheduler at time \<open>t0\<close> with \<open>n\<close> threads that are about to service it.\<close>

definition service_init :: "nat \<Rightarrow> real \<Rightarrow> 'f service" where
  "service_init n t0 =
     \<lparr>sched = CScheduler_ctor, time = t0, pcs = replicate n NotStarted, posted = [], started = []\<rparr>"

text \<open>Leaving the loop: \<^verbatim>\<open>--nThreadsServicingQueue\<close>, and the function returns.\<close>

definition loop_exit :: "nat \<Rightarrow> 'f service \<Rightarrow> 'f service" where
  "loop_exit i s =
     s\<lparr>pcs := (pcs s)[i := Returned],
       sched := (sched s)\<lparr>nThreadsServicingQueue := nThreadsServicingQueue (sched s) - 1\<rparr>\<rparr>"

text \<open>
  From the head of \<^verbatim>\<open>while (!shouldStop())\<close> with the mutex held: the loop is left, or
  the queue is empty and the thread waits, or it is not and the thread calls
  \<^verbatim>\<open>wait_until\<close> with the first key.
\<close>

definition loop_head :: "nat \<Rightarrow> 'f service \<Rightarrow> 'f service" where
  "loop_head i s =
     (if shouldStop (sched s) then loop_exit i s
      else if taskQueue (sched s) = [] then s\<lparr>pcs := (pcs s)[i := InWait]\<rparr>
      else s\<lparr>pcs := (pcs s)[i := InWaitUntil (fst (hd (taskQueue (sched s))))]\<rparr>)"

text \<open>
  After the second inner loop:
  \<^verbatim>\<open>if (shouldStop() || taskQueue.empty()) continue;\<close>
  \<^verbatim>\<open>Function f = taskQueue.begin()->second; taskQueue.erase(taskQueue.begin());\<close>
  and the call of \<open>f\<close> with the mutex released.
\<close>

definition take_front :: "nat \<Rightarrow> 'f service \<Rightarrow> 'f service" where
  "take_front i s =
     (if shouldStop (sched s) \<or> taskQueue (sched s) = [] then loop_head i s
      else s\<lparr>sched := (sched s)\<lparr>taskQueue := tl (taskQueue (sched s))\<rparr>,
             pcs := (pcs s)[i := InCall],
             started := started s @ [(hd (taskQueue (sched s)), time s)]\<rparr>)"

text \<open>
  The head of the second inner loop,
  \<^verbatim>\<open>while (!shouldStop() && !taskQueue.empty() && wait_until(lock, taskQueue.begin()->first) != timeout)\<close>:
  with the first two conditions true the thread waits again, for the key that is first
  now; otherwise the loop ends.
\<close>

definition timed_loop :: "nat \<Rightarrow> 'f service \<Rightarrow> 'f service" where
  "timed_loop i s =
     (if \<not> shouldStop (sched s) \<and> taskQueue (sched s) \<noteq> []
      then s\<lparr>pcs := (pcs s)[i := InWaitUntil (fst (hd (taskQueue (sched s))))]\<rparr>
      else take_front i s)"

text \<open>
  The head of the first inner loop,
  \<^verbatim>\<open>while (!shouldStop() && taskQueue.empty()) newTaskScheduled.wait(lock);\<close>
\<close>

definition after_wait :: "nat \<Rightarrow> 'f service \<Rightarrow> 'f service" where
  "after_wait i s =
     (if \<not> shouldStop (sched s) \<and> taskQueue (sched s) = []
      then s\<lparr>pcs := (pcs s)[i := InWait]\<rparr>
      else timed_loop i s)"

text \<open>
  The steps. \<open>Tick d\<close>: the clock advances by \<open>d\<close>. \<open>Post t f\<close>: some thread calls
  \<^verbatim>\<open>schedule(f, t)\<close>. \<open>Halt drain\<close>: some thread calls \<^verbatim>\<open>stop(drain)\<close>. \<open>Enter i\<close>:
  thread \<open>i\<close> calls \<^verbatim>\<open>serviceQueue\<close>. \<open>Wake i\<close>: its \<^verbatim>\<open>wait\<close> returns. \<open>Notified i\<close>: its
  \<^verbatim>\<open>wait_until\<close> returns without a timeout. \<open>Timeout i\<close>: its \<^verbatim>\<open>wait_until\<close> returns
  \<^verbatim>\<open>timeout\<close>, which needs the clock to have reached the key it waited for. \<open>Return i\<close>:
  the task it called returns. \<open>Throw i\<close>: the task throws, and the thread leaves
  \<^verbatim>\<open>serviceQueue\<close> through the \<^verbatim>\<open>catch\<close> block. A step that is not possible in the
  state yields \<open>None\<close>.
\<close>

datatype 'f event =
  Tick real | Post real "'f Function" | Halt bool
| Enter nat | Wake nat | Notified nat | Timeout nat | Return nat | Throw nat

fun service_event :: "'f event \<Rightarrow> 'f service \<Rightarrow> 'f service option" where
  "service_event (Tick d) s = (if 0 \<le> d then Some (s\<lparr>time := time s + d\<rparr>) else None)"
| "service_event (Post t f) s =
     Some (s\<lparr>sched := (sched s)\<lparr>taskQueue := multimap_insert t f (taskQueue (sched s))\<rparr>,
             posted := posted s @ [(t, f)]\<rparr>)"
| "service_event (Halt drain) s = Some (s\<lparr>sched := stop drain (sched s)\<rparr>)"
| "service_event (Enter i) s =
     (if i < length (pcs s) \<and> pcs s ! i = NotStarted
      then Some (loop_head i
        (s\<lparr>sched := (sched s)
            \<lparr>nThreadsServicingQueue := nThreadsServicingQueue (sched s) + 1\<rparr>\<rparr>))
      else None)"
| "service_event (Wake i) s =
     (if i < length (pcs s) \<and> pcs s ! i = InWait then Some (after_wait i s) else None)"
| "service_event (Notified i) s =
     (if i < length (pcs s) then
        (case pcs s ! i of InWaitUntil t \<Rightarrow> Some (timed_loop i s) | _ \<Rightarrow> None)
      else None)"
| "service_event (Timeout i) s =
     (if i < length (pcs s) then
        (case pcs s ! i of
           InWaitUntil t \<Rightarrow> if t \<le> time s then Some (take_front i s) else None
         | _ \<Rightarrow> None)
      else None)"
| "service_event (Return i) s =
     (if i < length (pcs s) \<and> pcs s ! i = InCall then Some (loop_head i s) else None)"
| "service_event (Throw i) s =
     (if i < length (pcs s) \<and> pcs s ! i = InCall then Some (loop_exit i s) else None)"

text \<open>A run is a list of steps, each possible where it is taken.\<close>

fun service_run :: "'f event list \<Rightarrow> 'f service \<Rightarrow> 'f service option" where
  "service_run [] s = Some s"
| "service_run (e # es) s =
     (case service_event e s of None \<Rightarrow> None | Some s' \<Rightarrow> service_run es s')"

text \<open>
  Invariants of the runs: every posted task is in the queue or has been taken, once;
  every task was taken at its key or later; and, with one service thread, a thread that
  waits for a key finds a first key that is not later.
\<close>

definition conserved :: "'f service \<Rightarrow> bool" where
  "conserved s \<longleftrightarrow>
     mset (map fst (started s)) + mset (taskQueue (sched s)) = mset (posted s)"

definition on_time :: "'f service \<Rightarrow> bool" where
  "on_time s \<longleftrightarrow> (\<forall>x\<in>set (started s). fst (fst x) \<le> snd x)"

definition single_inv :: "'f service \<Rightarrow> bool" where
  "single_inv s \<longleftrightarrow>
     (\<exists>p. pcs s = [p]
        \<and> (\<forall>t. p = InWaitUntil t \<longrightarrow>
              taskQueue (sched s) \<noteq> [] \<and> fst (hd (taskQueue (sched s))) \<le> t))
     \<and> sorted (map fst (taskQueue (sched s)))
     \<and> on_time s"

subsection \<open>schedule, scheduleFromNow and scheduleEvery\<close>













section \<open>Properties of the work queue\<close>

lemma wq_apply_maxDepth: "maxDepth (wq_apply wq op) = maxDepth wq"
  by (cases op)
    (simp_all add: Enqueue_def Run_section_def Interrupt_def
      ThreadCounter_ctor_def ThreadCounter_dtor_def)

lemma wq_apply_depth:
  assumes "length (queue wq) \<le> maxDepth wq"
  shows "length (queue (wq_apply wq op)) \<le> maxDepth wq"
proof (cases op)
  case (OpEnqueue item)
  with assms show ?thesis by (simp add: Enqueue_def)
next
  case OpRunSection
  have "length (tl (queue wq)) \<le> length (queue wq)" by simp
  with assms OpRunSection show ?thesis by (simp add: Run_section_def del: length_tl)
next
  case OpInterrupt
  with assms show ?thesis by (simp add: Interrupt_def)
next
  case OpThreadEnter
  with assms show ?thesis by (simp add: ThreadCounter_ctor_def)
next
  case OpThreadExit
  with assms show ?thesis by (simp add: ThreadCounter_dtor_def)
qed

lemma foldl_wq_apply_inv:
  assumes "length (queue wq) \<le> maxDepth wq"
  shows "length (queue (foldl wq_apply wq ops)) \<le> maxDepth wq
         \<and> maxDepth (foldl wq_apply wq ops) = maxDepth wq"
  using assms
proof (induction ops arbitrary: wq)
  case Nil
  then show ?case by simp
next
  case (Cons op ops)
  have "length (queue (wq_apply wq op)) \<le> maxDepth (wq_apply wq op)"
    using Cons.prems by (simp add: wq_apply_depth wq_apply_maxDepth)
  from Cons.IH [OF this] show ?case
    by (simp add: wq_apply_maxDepth)
qed



text \<open>
  C5: the depth invariant \<open>0 \<le> depth \<le> capacity\<close> holds after every operation on a
  queue built by the constructor, and every operation keeps it; at
  \<open>depth = capacity - 1\<close> (written \<open>depth + 1 = capacity\<close>, since the capacity is
  unsigned) an \<open>Enqueue\<close> succeeds and the one after it fails; at \<open>depth = capacity\<close>
  an \<open>Enqueue\<close> returns false and leaves the queue as it is.
\<close>

theorem C5_depth_invariant:
  "Depth (wq_history d ops) \<le> maxDepth (wq_history d ops)
   \<and> maxDepth (wq_history d ops) = d
   \<and> (Depth wq \<le> maxDepth wq \<longrightarrow>
        Depth (wq_apply wq op) \<le> maxDepth (wq_apply wq op))
   \<and> (Depth wq + 1 = maxDepth wq \<longrightarrow>
        Enqueue wq item = (True, wq\<lparr>queue := queue wq @ [item]\<rparr>)
        \<and> Enqueue (snd (Enqueue wq item)) item' = (False, snd (Enqueue wq item)))
   \<and> (Depth wq = maxDepth wq \<longrightarrow> Enqueue wq item = (False, wq))"
proof -
  have init: "length (queue (WorkQueue_ctor d :: 'a WorkQueue))
                \<le> maxDepth (WorkQueue_ctor d :: 'a WorkQueue)"
    by (simp add: WorkQueue_ctor_def)
  have h: "Depth (wq_history d ops) \<le> maxDepth (wq_history d ops)
           \<and> maxDepth (wq_history d ops) = d"
    using foldl_wq_apply_inv [OF init, of ops]
    by (simp add: wq_history_def Depth_def WorkQueue_ctor_def)
  have step: "Depth wq \<le> maxDepth wq \<longrightarrow>
        Depth (wq_apply wq op) \<le> maxDepth (wq_apply wq op)"
    by (simp add: Depth_def wq_apply_depth wq_apply_maxDepth)
  have e1: "Depth wq + 1 = maxDepth wq \<longrightarrow>
        Enqueue wq item = (True, wq\<lparr>queue := queue wq @ [item]\<rparr>)
        \<and> Enqueue (snd (Enqueue wq item)) item' = (False, snd (Enqueue wq item))"
    by (auto simp add: Enqueue_def Depth_def)
  have e2: "Depth wq = maxDepth wq \<longrightarrow> Enqueue wq item = (False, wq)"
    by (simp add: Enqueue_def Depth_def)
  from h step e1 e2 show ?thesis by blast
qed

theorem C5_depth_invariant_witness:
  "Depth (wq_history 2 [OpEnqueue (1::nat), OpEnqueue 2, OpEnqueue 3, OpRunSection])
     \<le> maxDepth (wq_history 2 [OpEnqueue (1::nat), OpEnqueue 2, OpEnqueue 3, OpRunSection])
   \<and> Depth (wq_history 2 [OpEnqueue (1::nat)]) + 1 = maxDepth (wq_history 2 [OpEnqueue (1::nat)])
   \<and> Enqueue (wq_history 2 [OpEnqueue (1::nat)]) 2
       = (True, \<lparr>queue = [1, 2], running = True, maxDepth = 2, numThreads = 0\<rparr>)
   \<and> Enqueue (snd (Enqueue (wq_history 2 [OpEnqueue (1::nat)]) 2)) 3
       = (False, \<lparr>queue = [1, 2], running = True, maxDepth = 2, numThreads = 0\<rparr>)
   \<and> Depth (wq_history 2 [OpEnqueue (1::nat), OpEnqueue 2])
       = maxDepth (wq_history 2 [OpEnqueue (1::nat), OpEnqueue 2])
   \<and> Enqueue (wq_history 2 [OpEnqueue (1::nat), OpEnqueue 2]) 3
       = (False, wq_history 2 [OpEnqueue (1::nat), OpEnqueue 2])"
  using C5_depth_invariant [of 2 "[OpEnqueue (1::nat), OpEnqueue 2, OpEnqueue 3, OpRunSection]"
      "wq_history 2 [OpEnqueue (1::nat)]" OpInterrupt 2 3]
    C5_depth_invariant [of 2 "[OpEnqueue (1::nat)]"
      "wq_history 2 [OpEnqueue (1::nat), OpEnqueue 2]" OpInterrupt 3 3]
  by (simp add: wq_history_def WorkQueue_ctor_def Enqueue_def Depth_def Run_section_def)

section \<open>Properties of the path-handler registry\<close>

lemma take_is_begin: "(take (length p) u = p) = Sublist.prefix p u"
proof
  assume "take (length p) u = p"
  then have "u = p @ drop (length p) u" by (metis append_take_drop_id)
  then show "Sublist.prefix p u" by (rule Sublist.prefixI)
next
  assume "Sublist.prefix p u"
  then obtain t where "u = p @ t" by (auto simp: Sublist.prefix_def)
  then show "take (length p) u = p" by simp
qed

lemma matches_spec_length: "matches_spec r u \<Longrightarrow> length (prefix r) \<le> length u"
  by (auto simp: matches_spec_def Sublist.prefix_length_le split: if_splits)

lemma match_test:
  "(if exactMatch i then Inr (u = prefix i)
    else bindE (substr u 0 (length (prefix i))) (\<lambda>s. Inr (s = prefix i)))
   = Inr (matches_spec i u)"
  by (simp add: matches_spec_def bindE_def substr_def take_is_begin)

lemma find_handler_Cons:
  "find_handler (i # rest) u =
     (if matches_spec i u then Inr (Some (i, drop (length (prefix i)) u))
      else find_handler rest u)"
proof (cases "matches_spec i u")
  case True
  then have "length (prefix i) \<le> length u" by (rule matches_spec_length)
  with True show ?thesis
    by (simp add: match_test bindE_def substr_from_def)
next
  case False
  then show ?thesis by (simp add: match_test bindE_def)
qed

lemma find_handler_spec: "find_handler hs u = Inr (lookup_spec hs u)"
proof (induction hs)
  case Nil
  show ?case by (simp add: lookup_spec_def)
next
  case (Cons i rest)
  then show ?case
    by (simp only: find_handler_Cons) (simp add: lookup_spec_def)
qed

lemma find_first:
  assumes "i < length hs" "P (hs ! i)" "\<forall>k<i. \<not> P (hs ! k)"
  shows "find P hs = Some (hs ! i)"
  using assms
proof (induction hs arbitrary: i)
  case Nil
  then show ?case by simp
next
  case (Cons a hs)
  show ?case
  proof (cases i)
    case 0
    with Cons.prems show ?thesis by simp
  next
    case (Suc j)
    with Cons.prems have na: "\<not> P a" by auto
    have "\<forall>k<j. \<not> P (hs ! k)"
    proof (intro allI impI)
      fix k assume "k < j"
      then have "Suc k < i" using Suc by simp
      with Cons.prems(3) have "\<not> P ((a # hs) ! Suc k)" by blast
      then show "\<not> P (hs ! k)" by simp
    qed
    moreover have "j < length hs" "P (hs ! j)" using Cons.prems Suc by auto
    ultimately have "find P hs = Some (hs ! j)" by (intro Cons.IH)
    with na Suc show ?thesis by simp
  qed
qed

text \<open>
  C6: for every URI and every registry, the loop returns what the specification's lookup
  returns: the first record in insertion order that matches (an exact record matches iff
  the URI equals its prefix, a non-exact record iff the URI begins with its prefix),
  together with the rest of the URI after the prefix, and it never throws. Hence a
  record that matches and has no matching record before it is the one returned, whatever
  is registered after it.
\<close>

theorem C6_lookup_first_match:
  "find_handler hs u = Inr (lookup_spec hs u)
   \<and> (i < length hs \<and> matches_spec (hs ! i) u \<and> (\<forall>k<i. \<not> matches_spec (hs ! k) u)
        \<longrightarrow> find_handler hs u = Inr (Some (hs ! i, drop (length (prefix (hs ! i))) u)))"
proof (intro conjI impI)
  show "find_handler hs u = Inr (lookup_spec hs u)" by (rule find_handler_spec)
next
  assume a: "i < length hs \<and> matches_spec (hs ! i) u \<and> (\<forall>k<i. \<not> matches_spec (hs ! k) u)"
  then have "find (\<lambda>r. matches_spec r u) hs = Some (hs ! i)"
    by (intro find_first) auto
  then show "find_handler hs u = Inr (Some (hs ! i, drop (length (prefix (hs ! i))) u))"
    by (simp add: find_handler_spec lookup_spec_def)
qed

text \<open>
  C6 at a concrete registry: ``/rest/tx'' matches the second and the third record; the
  second, registered first, is returned.
\<close>

theorem C6_lookup_first_match_witness:
  "matches_spec \<lparr>prefix = ''/'', exactMatch = False, handler = (1::nat)\<rparr> ''/rest/tx''
   \<and> matches_spec \<lparr>prefix = ''/rest/'', exactMatch = False, handler = (2::nat)\<rparr> ''/rest/tx''
   \<and> \<not> matches_spec \<lparr>prefix = ''/rest'', exactMatch = True, handler = (0::nat)\<rparr> ''/rest/tx''
   \<and> find_handler
        [\<lparr>prefix = ''/rest'', exactMatch = True, handler = (0::nat)\<rparr>,
         \<lparr>prefix = ''/'', exactMatch = False, handler = 1\<rparr>,
         \<lparr>prefix = ''/rest/'', exactMatch = False, handler = 2\<rparr>] ''/rest/tx''
       = Inr (Some (\<lparr>prefix = ''/'', exactMatch = False, handler = 1\<rparr>, ''rest/tx''))"
proof -
  let ?hs = "[\<lparr>prefix = ''/rest'', exactMatch = True, handler = (0::nat)\<rparr>,
         \<lparr>prefix = ''/'', exactMatch = False, handler = 1\<rparr>,
         \<lparr>prefix = ''/rest/'', exactMatch = False, handler = 2\<rparr>]"
  have m: "matches_spec \<lparr>prefix = ''/'', exactMatch = False, handler = (1::nat)\<rparr> ''/rest/tx''
     \<and> matches_spec \<lparr>prefix = ''/rest/'', exactMatch = False, handler = (2::nat)\<rparr> ''/rest/tx''
     \<and> \<not> matches_spec \<lparr>prefix = ''/rest'', exactMatch = True, handler = (0::nat)\<rparr> ''/rest/tx''"
    by (simp add: matches_spec_def)
  then have h: "1 < length ?hs \<and> matches_spec (?hs ! 1) ''/rest/tx''
      \<and> (\<forall>k<1. \<not> matches_spec (?hs ! k) ''/rest/tx'')"
    by simp
  have "find_handler ?hs ''/rest/tx''
      = Inr (Some (?hs ! 1, drop (length (prefix (?hs ! 1))) ''/rest/tx''))"
    using C6_lookup_first_match [of ?hs "''/rest/tx''" 1] h by blast
  then have "find_handler ?hs ''/rest/tx''
      = Inr (Some (\<lparr>prefix = ''/'', exactMatch = False, handler = 1\<rparr>, ''rest/tx''))"
    by (simp del: find_handler.simps)
  with m show ?thesis by blast
qed

lemma unregister_absent:
  "\<forall>r\<in>set hs. \<not> (prefix r = p \<and> exactMatch r = e) \<Longrightarrow> UnregisterHTTPHandler hs p e = hs"
  by (induction hs) auto

lemma unregister_append_absent:
  "\<forall>r\<in>set xs. \<not> (prefix r = p \<and> exactMatch r = e) \<Longrightarrow>
   UnregisterHTTPHandler (xs @ ys) p e = xs @ UnregisterHTTPHandler ys p e"
  by (induction xs) auto

text \<open>
  C7 (as stated): register followed by unregister of the same (prefix, exact) leaves every
  lookup as it was. It does not when a record with that (prefix, exact) is registered
  already: unregister removes the older record, the new one stays, and the URI is routed
  to the new handler.
\<close>

theorem C7_register_unregister_counterexample:
  "find_handler
     (UnregisterHTTPHandler
        (RegisterHTTPHandler [\<lparr>prefix = ''/a'', exactMatch = False, handler = (0::nat)\<rparr>]
           ''/a'' False 1)
        ''/a'' False) ''/ab''
     = Inr (Some (\<lparr>prefix = ''/a'', exactMatch = False, handler = 1\<rparr>, ''b''))
   \<and> find_handler [\<lparr>prefix = ''/a'', exactMatch = False, handler = (0::nat)\<rparr>] ''/ab''
     = Inr (Some (\<lparr>prefix = ''/a'', exactMatch = False, handler = 0\<rparr>, ''b''))"
  by (simp add: RegisterHTTPHandler_def bindE_def substr_def substr_from_def)

text \<open>
  C7 (amended): when no record with the same (prefix, exact) is registered, register
  followed by unregister gives back the registry itself, so every lookup yields what it
  yielded before; unregister is a no-op when no record matches, and it removes the first
  record whose (prefix, exact) matches.
\<close>

theorem C7_register_unregister:
  "((\<forall>r\<in>set hs. \<not> (prefix r = p \<and> exactMatch r = e)) \<longrightarrow>
      UnregisterHTTPHandler (RegisterHTTPHandler hs p e h) p e = hs
      \<and> find_handler (UnregisterHTTPHandler (RegisterHTTPHandler hs p e h) p e) u
          = find_handler hs u
      \<and> UnregisterHTTPHandler hs p e = hs)
   \<and> ((\<forall>r\<in>set xs. \<not> (prefix r = p \<and> exactMatch r = e)) \<longrightarrow>
      UnregisterHTTPHandler (xs @ \<lparr>prefix = p, exactMatch = e, handler = h'\<rparr> # ys) p e
        = xs @ ys)"
  by (simp add: RegisterHTTPHandler_def unregister_append_absent unregister_absent)

text \<open>C7 (amended) at concrete registries.\<close>

theorem C7_register_unregister_witness:
  "UnregisterHTTPHandler
      (RegisterHTTPHandler [\<lparr>prefix = ''/'', exactMatch = False, handler = (0::nat)\<rparr>]
         ''/rest/'' False 1) ''/rest/'' False
     = [\<lparr>prefix = ''/'', exactMatch = False, handler = 0\<rparr>]
   \<and> UnregisterHTTPHandler [\<lparr>prefix = ''/'', exactMatch = False, handler = (0::nat)\<rparr>]
        ''/rest/'' False
     = [\<lparr>prefix = ''/'', exactMatch = False, handler = 0\<rparr>]
   \<and> UnregisterHTTPHandler
        ([\<lparr>prefix = ''/'', exactMatch = False, handler = (0::nat)\<rparr>]
          @ \<lparr>prefix = ''/rest/'', exactMatch = False, handler = 1\<rparr>
          # [\<lparr>prefix = ''/rest/'', exactMatch = False, handler = 2\<rparr>]) ''/rest/'' False
     = [\<lparr>prefix = ''/'', exactMatch = False, handler = 0\<rparr>]
        @ [\<lparr>prefix = ''/rest/'', exactMatch = False, handler = 2\<rparr>]"
  using C7_register_unregister [of
      "[\<lparr>prefix = ''/'', exactMatch = False, handler = (0::nat)\<rparr>]" "''/rest/''" False 1 "''/x''"
      "[\<lparr>prefix = ''/'', exactMatch = False, handler = (0::nat)\<rparr>]" 1
      "[\<lparr>prefix = ''/rest/'', exactMatch = False, handler = 2\<rparr>]"]
  by simp

section \<open>Properties of HTTPRequest\<close>

lemma WriteReply_Inr:
  "WriteReply h s b evs = Inr (h', evs') \<longleftrightarrow>
     (\<exists>r. req h = Some r \<and> \<not> replySent h
        \<and> h' = h\<lparr>replySent := True, req := None\<rparr>
        \<and> evs' = evs @ [(r\<lparr>output_buffer := output_buffer r @ b\<rparr>, s)])"
  by (auto simp add: WriteReply_def split: option.splits)

lemma WriteHeader_Inr:
  "WriteHeader h hdr v = Inr h' \<longleftrightarrow>
     (\<exists>r. req h = Some r
        \<and> h' = h\<lparr>req := Some (r\<lparr>output_headers := output_headers r @ [(hdr, v)]\<rparr>)\<rparr>)"
  by (auto simp add: WriteHeader_def split: option.splits)

lemma bindE_Inr: "bindE m f = Inr y \<longleftrightarrow> (\<exists>x. m = Inr x \<and> f x = Inr y)"
  by (cases m) (simp_all add: bindE_def)

lemma request_calls_replied:
  assumes "req h = None" and "request_calls h cs evs = Inr (h', evs')"
  shows "h' = h \<and> evs' = evs"
proof (cases cs)
  case Nil
  with assms show ?thesis by simp
next
  case (Cons c cs')
  with assms show ?thesis
    by (cases c) (simp_all add: bindE_def WriteReply_def WriteHeader_def)
qed

lemma request_calls_inv:
  assumes "request_calls h cs evs = Inr (h', evs')"
    and "req h = Some r0" and "\<not> replySent h"
  shows "(replySent h' \<and> req h' = None \<and> (\<exists>ev. evs' = evs @ [ev]))
         \<or> (\<not> replySent h'
             \<and> (\<exists>r'. req h' = Some r' \<and> output_buffer r' = output_buffer r0)
             \<and> evs' = evs)"
  using assms
proof (induction cs arbitrary: h evs r0)
  case Nil
  then show ?case by simp
next
  case (Cons c cs)
  show ?case
  proof (cases c)
    case (CallWriteReply nStatus strReply)
    with Cons.prems(1) obtain h1 evs1 where
      w: "WriteReply h nStatus strReply evs = Inr (h1, evs1)"
      and r: "request_calls h1 cs evs1 = Inr (h', evs')"
      by (auto simp add: bindE_Inr)
    from w obtain r1 where h1: "h1 = h\<lparr>replySent := True, req := None\<rparr>"
      "evs1 = evs @ [(r1\<lparr>output_buffer := output_buffer r1 @ strReply\<rparr>, nStatus)]"
      by (auto simp add: WriteReply_Inr)
    then have "req h1 = None" by simp
    from request_calls_replied [OF this r] h1 show ?thesis by simp
  next
    case (CallWriteHeader hdr val)
    with Cons.prems(1) obtain h1 where
      w: "WriteHeader h hdr val = Inr h1"
      and r: "request_calls h1 cs evs = Inr (h', evs')"
      by (auto simp add: bindE_Inr)
    from w Cons.prems(2,3) have
      "req h1 = Some (r0\<lparr>output_headers := output_headers r0 @ [(hdr, val)]\<rparr>)"
      "\<not> replySent h1"
      by (auto simp add: WriteHeader_Inr)
    from Cons.IH [OF r this] show ?thesis by simp
  qed
qed

lemma dtor_replied: "replySent h \<Longrightarrow> HTTPRequest_dtor h evs = Inr evs"
  by (simp add: HTTPRequest_dtor_def)

lemma dtor_unreplied:
  "\<not> replySent h \<Longrightarrow> req h = Some r \<Longrightarrow>
   HTTPRequest_dtor h evs
     = Inr (evs @ [(r\<lparr>output_buffer := output_buffer r @ ''Unhandled request''\<rparr>, HTTP_INTERNAL)])"
  by (simp add: HTTPRequest_dtor_def WriteReply_def bindE_def)

lemma calls_then_dtor:
  assumes c: "request_calls (HTTPRequest_ctor r) cs evs = Inr (h, evs1)"
  shows "(replySent h \<and> (\<exists>ev. evs1 = evs @ [ev]) \<and> HTTPRequest_dtor h evs1 = Inr evs1)
         \<or> (\<not> replySent h \<and> evs1 = evs
             \<and> (\<exists>ev. HTTPRequest_dtor h evs1 = Inr (evs1 @ [ev])
                   \<and> reply_status ev = 500
                   \<and> reply_body ev = output_buffer r @ ''Unhandled request''))"
proof -
  have "req (HTTPRequest_ctor r) = Some r" "\<not> replySent (HTTPRequest_ctor r)"
    by (simp_all add: HTTPRequest_ctor_def)
  from request_calls_inv [OF c this]
  show ?thesis
  proof
    assume "replySent h \<and> req h = None \<and> (\<exists>ev. evs1 = evs @ [ev])"
    then show ?thesis by (simp add: dtor_replied)
  next
    assume a: "\<not> replySent h
      \<and> (\<exists>r'. req h = Some r' \<and> output_buffer r' = output_buffer r) \<and> evs1 = evs"
    then obtain r' where r': "req h = Some r'" "output_buffer r' = output_buffer r" by auto
    from a have n: "\<not> replySent h" by simp
    have "HTTPRequest_dtor h evs1
       = Inr (evs1 @ [(r'\<lparr>output_buffer := output_buffer r' @ ''Unhandled request''\<rparr>, HTTP_INTERNAL)])"
      using n r'(1) by (rule dtor_unreplied)
    with a r'(2) show ?thesis
      by (simp add: reply_status_def reply_body_def HTTP_INTERNAL_def)
  qed
qed

lemma lifetime_one_reply:
  assumes "HTTPRequest_lifetime r cs evs = Inr evs'"
  shows "\<exists>ev. evs' = evs @ [ev]"
proof -
  from assms obtain h evs1 where
    c: "request_calls (HTTPRequest_ctor r) cs evs = Inr (h, evs1)"
    and d: "HTTPRequest_dtor h evs1 = Inr evs'"
    by (auto simp add: HTTPRequest_lifetime_def bindE_Inr)
  from calls_then_dtor [OF c] d show ?thesis by auto
qed

lemma WriteReply_once:
  assumes "WriteReply h0 s b evs0 = Inr (h1, evs2)"
  shows "replySent h1 \<and> (\<exists>ev. evs2 = evs0 @ [ev] \<and> reply_status ev = s)
        \<and> WriteReply h1 s' b' evs3 = Inl AssertionFailed
        \<and> HTTPRequest_dtor h1 evs2 = Inr evs2"
proof -
  from assms obtain r where h1: "h1 = h0\<lparr>replySent := True, req := None\<rparr>"
      "evs2 = evs0 @ [(r\<lparr>output_buffer := output_buffer r @ b\<rparr>, s)]"
    by (auto simp add: WriteReply_Inr)
  then show ?thesis
    by (simp add: WriteReply_def HTTPRequest_dtor_def reply_status_def)
qed

text \<open>
  C1: over the lifetime of a request (construction, any calls of its owner, destruction)
  that runs to its end, exactly one reply event is triggered. At destruction either a
  reply has been written, exactly one event was triggered and the destructor adds none,
  or no reply has been written, no event was triggered and the destructor triggers one
  with status 500 and the body ``Unhandled request''. A successful \<open>WriteReply\<close> sets
  \<open>replySent\<close>, after which any further \<open>WriteReply\<close> fails its assertion.
\<close>

theorem C1_exactly_one_reply:
  "(HTTPRequest_lifetime r cs evs = Inr evs' \<longrightarrow> (\<exists>ev. evs' = evs @ [ev]))
   \<and> (request_calls (HTTPRequest_ctor r) cs evs = Inr (h, evs1) \<longrightarrow>
        (replySent h \<and> (\<exists>ev. evs1 = evs @ [ev]) \<and> HTTPRequest_dtor h evs1 = Inr evs1)
        \<or> (\<not> replySent h \<and> evs1 = evs
             \<and> (\<exists>ev. HTTPRequest_dtor h evs1 = Inr (evs1 @ [ev])
                   \<and> reply_status ev = 500
                   \<and> reply_body ev = output_buffer r @ ''Unhandled request'')))
   \<and> (WriteReply h0 s b evs0 = Inr (h1, evs2) \<longrightarrow>
        replySent h1 \<and> (\<exists>ev. evs2 = evs0 @ [ev] \<and> reply_status ev = s)
        \<and> WriteReply h1 s' b' evs3 = Inl AssertionFailed
        \<and> HTTPRequest_dtor h1 evs2 = Inr evs2)"
  using lifetime_one_reply [of r cs evs evs'] calls_then_dtor [of r cs evs h evs1]
    WriteReply_once [of h0 s b evs0 h1 evs2 s' b' evs3]
  by blast

section \<open>Properties of the request callback, the ACL and the bind addresses\<close>

lemma reply_and_destroy_fresh:
  "reply_and_destroy (HTTPRequest_ctor r) s b st
     = Inr (st\<lparr>triggered := triggered st @ [(r\<lparr>output_buffer := output_buffer r @ b\<rparr>, s)]\<rparr>)"
  by (simp add: reply_and_destroy_def WriteReply_def HTTPRequest_ctor_def HTTPRequest_dtor_def
      bindE_def)

lemma GetPeer_fresh:
  "GetPeer nb (HTTPRequest_ctor r)
     = Inr (case connection_peer r of None \<Rightarrow> CService_default nb
            | Some (address, port) \<Rightarrow> CService_of nb address port)"
  by (simp add: GetPeer_def HTTPRequest_ctor_def)

lemma GetRequestMethod_fresh:
  "GetRequestMethod (HTTPRequest_ctor r)
     = Inr (case command r of
                 EVHTTP_REQ_GET \<Rightarrow> GET
               | EVHTTP_REQ_POST \<Rightarrow> POST
               | EVHTTP_REQ_HEAD \<Rightarrow> HEAD
               | EVHTTP_REQ_PUT \<Rightarrow> PUT
               | _ \<Rightarrow> UNKNOWN)"
  by (simp add: GetRequestMethod_def HTTPRequest_ctor_def)

lemma method_unknown:
  "((case c of
                 EVHTTP_REQ_GET \<Rightarrow> GET
               | EVHTTP_REQ_POST \<Rightarrow> POST
               | EVHTTP_REQ_HEAD \<Rightarrow> HEAD
               | EVHTTP_REQ_PUT \<Rightarrow> PUT
               | _ \<Rightarrow> UNKNOWN) = UNKNOWN)
   = (c \<noteq> EVHTTP_REQ_GET \<and> c \<noteq> EVHTTP_REQ_POST \<and> c \<noteq> EVHTTP_REQ_HEAD \<and> c \<noteq> EVHTTP_REQ_PUT)"
  by (cases c) simp_all

lemma GetURI_fresh: "GetURI (HTTPRequest_ctor r) = Inr (uri r)"
  by (simp add: GetURI_def HTTPRequest_ctor_def)

lemma bindE_Inr_left: "bindE (Inr x) f = f x"
  by (simp add: bindE_def)

text \<open>
  C3: the callback applies the gates in order and stops at the first that fires. A peer
  that the ACL does not allow gets 403 (the registry is not consulted and the queue is
  left alone); otherwise a method that is none of GET, POST, HEAD, PUT gets 405; otherwise
  a URI that no registered handler matches gets 404; otherwise a work item owning the
  request, the path suffix and the handler is enqueued, and when the enqueue fails (the
  queue is at its capacity) the reply is 500 with the body ``Work queue depth exceeded''.
  In every rejecting branch exactly one reply event is triggered.
\<close>

theorem C3_gate_order:
  "http_request_cb nb ereq st =
     (if \<not> ClientAllowed nb (rpc_allow_subnets st)
            (case connection_peer ereq of None \<Rightarrow> CService_default nb
             | Some (address, port) \<Rightarrow> CService_of nb address port)
      then Inr (st\<lparr>triggered := triggered st @ [(ereq, 403)]\<rparr>)
      else if command ereq \<noteq> EVHTTP_REQ_GET \<and> command ereq \<noteq> EVHTTP_REQ_POST
              \<and> command ereq \<noteq> EVHTTP_REQ_HEAD \<and> command ereq \<noteq> EVHTTP_REQ_PUT
      then Inr (st\<lparr>triggered := triggered st @ [(ereq, 405)]\<rparr>)
      else case lookup_spec (pathHandlers st) (uri ereq) of
        None \<Rightarrow> Inr (st\<lparr>triggered := triggered st @ [(ereq, 404)]\<rparr>)
      | Some (i, path) \<Rightarrow>
          (case workQueue st of
             None \<Rightarrow> Inl AssertionFailed
           | Some wq \<Rightarrow>
               if Depth wq < maxDepth wq
               then Inr (st\<lparr>workQueue := Some (wq\<lparr>queue := queue wq @
                      [\<lparr>item_req = HTTPRequest_ctor ereq, item_path = path,
                        item_func = handler i\<rparr>]\<rparr>)\<rparr>)
               else Inr (st\<lparr>triggered := triggered st @
                      [(ereq\<lparr>output_buffer := output_buffer ereq @ ''Work queue depth exceeded''\<rparr>,
                        500)]\<rparr>)))"
  by (simp add: http_request_cb_def Let_def GetPeer_fresh GetRequestMethod_fresh GetURI_fresh
      bindE_Inr_left method_unknown find_handler_spec reply_and_destroy_fresh
      HTTP_FORBIDDEN_def HTTP_BADMETHOD_def HTTP_NOTFOUND_def HTTP_INTERNAL_def
      Enqueue_def Depth_def
      split: option.split prod.split)

lemma subnet_loop_ex: "subnet_loop nb subnets a = (\<exists>s\<in>set subnets. Match nb s a)"
  by (induction subnets) auto

lemma push_allowed_prefix: "\<exists>rest. snd (push_allowed nb strs subnets) = subnets @ rest"
proof (induction strs arbitrary: subnets)
  case Nil
  show ?case by simp
next
  case (Cons s strs)
  show ?case
  proof (cases "CSubNet_IsValid nb (CSubNet_of nb s)")
    case True
    from Cons.IH [of "subnets @ [CSubNet_of nb s]"] True show ?thesis
      by (auto simp add: Let_def)
  next
    case False
    then show ?thesis by (simp add: Let_def)
  qed
qed

lemma InitHTTPAllowList_loopback:
  "\<exists>rest. snd (InitHTTPAllowList nb a)
     = [CSubNet_of nb ''127.0.0.0/8'', CSubNet_of nb ''::1''] @ rest"
  using push_allowed_prefix [of nb "multi_at a ''-rpcallowip''"
      "[CSubNet_of nb ''127.0.0.0/8'', CSubNet_of nb ''::1'']"]
  by (simp add: InitHTTPAllowList_def Let_def)

text \<open>
  C10: for a peer address that is not valid, \<open>ClientAllowed\<close> is false whatever the
  subnet list holds, so an address the ACL admits is valid and matched by a subnet; the
  list that \<open>InitHTTPAllowList\<close> builds starts with the two loopback subnets, and an
  invalid address is denied even when the loopback subnet matches it; the callback answers
  a request whose peer is not valid with 403.
\<close>

theorem C10_invalid_peer_denied:
  "(\<not> IsValid nb netaddr \<longrightarrow> ClientAllowed nb subnets netaddr = False)
   \<and> (ClientAllowed nb subnets netaddr \<longrightarrow>
        IsValid nb netaddr \<and> (\<exists>s\<in>set subnets. Match nb s netaddr))
   \<and> (\<exists>rest. snd (InitHTTPAllowList nb a)
          = [CSubNet_of nb ''127.0.0.0/8'', CSubNet_of nb ''::1''] @ rest)
   \<and> (\<not> IsValid nb netaddr \<and> Match nb (CSubNet_of nb ''127.0.0.0/8'') netaddr \<longrightarrow>
        ClientAllowed nb (snd (InitHTTPAllowList nb a)) netaddr = False)
   \<and> (\<not> IsValid nb (case connection_peer ereq of None \<Rightarrow> CService_default nb
                      | Some (address, port) \<Rightarrow> CService_of nb address port) \<longrightarrow>
        http_request_cb nb ereq st = Inr (st\<lparr>triggered := triggered st @ [(ereq, 403)]\<rparr>))"
proof -
  have p1: "\<not> IsValid nb netaddr \<longrightarrow> ClientAllowed nb subnets netaddr = False"
    by (simp add: ClientAllowed_def)
  have p2: "ClientAllowed nb subnets netaddr \<longrightarrow>
        IsValid nb netaddr \<and> (\<exists>s\<in>set subnets. Match nb s netaddr)"
    by (simp add: ClientAllowed_def subnet_loop_ex split: if_splits)
  have p3: "\<exists>rest. snd (InitHTTPAllowList nb a)
          = [CSubNet_of nb ''127.0.0.0/8'', CSubNet_of nb ''::1''] @ rest"
    by (rule InitHTTPAllowList_loopback)
  have p4: "\<not> IsValid nb netaddr \<and> Match nb (CSubNet_of nb ''127.0.0.0/8'') netaddr \<longrightarrow>
        ClientAllowed nb (snd (InitHTTPAllowList nb a)) netaddr = False"
    by (simp add: ClientAllowed_def)
  have p5: "\<not> IsValid nb (case connection_peer ereq of None \<Rightarrow> CService_default nb
                      | Some (address, port) \<Rightarrow> CService_of nb address port) \<longrightarrow>
        http_request_cb nb ereq st = Inr (st\<lparr>triggered := triggered st @ [(ereq, 403)]\<rparr>)"
  proof
    assume n: "\<not> IsValid nb (case connection_peer ereq of None \<Rightarrow> CService_default nb
                      | Some (address, port) \<Rightarrow> CService_of nb address port)"
    then have "\<not> ClientAllowed nb (rpc_allow_subnets st)
       (case connection_peer ereq of None \<Rightarrow> CService_default nb
                      | Some (address, port) \<Rightarrow> CService_of nb address port)"
      by (simp add: ClientAllowed_def)
    then show "http_request_cb nb ereq st = Inr (st\<lparr>triggered := triggered st @ [(ereq, 403)]\<rparr>)"
      by (simp add: http_request_cb_def Let_def GetPeer_fresh bindE_Inr_left
          reply_and_destroy_fresh HTTP_FORBIDDEN_def)
  qed
  from p1 p2 p3 p4 p5 show ?thesis by blast
qed

text \<open>
  C10 at the example instance: the unspecified peer is matched by the subnet with the
  empty prefix and is denied all the same; a request with no connection gets 403.
\<close>

theorem C10_invalid_peer_denied_witness:
  "\<not> IsValid example_netbase ([], 0)
   \<and> Match example_netbase (CSubNet_of example_netbase ''127.0.0.0/8'') (''127.0.0.1'', 0)
   \<and> IsValid example_netbase (''127.0.0.1'', 0)
   \<and> ClientAllowed example_netbase [''127.'', ''::1''] (''127.0.0.1'', 0)
   \<and> Match example_netbase [] ([], 0)
   \<and> ClientAllowed example_netbase [[]] ([], 0) = False
   \<and> http_request_cb example_netbase
        \<lparr>command = EVHTTP_REQ_GET, uri = ''/'', connection_peer = None,
         output_headers = [], output_buffer = []\<rparr> (example_state 1)
       = Inr ((example_state 1)\<lparr>triggered :=
           [(\<lparr>command = EVHTTP_REQ_GET, uri = ''/'', connection_peer = None,
              output_headers = [], output_buffer = []\<rparr>, 403)]\<rparr>)"
  using C10_invalid_peer_denied [of example_netbase "([], 0)" "[[]]"
      "\<lparr>mapArgs = Map.empty, mapMultiArgs = Map.empty\<rparr>"
      "\<lparr>command = EVHTTP_REQ_GET, uri = ''/'', connection_peer = None,
         output_headers = [], output_buffer = []\<rparr>" "example_state 1"]
    C10_invalid_peer_denied [of example_netbase "(''127.0.0.1'', 0)" "[''127.'', ''::1'']"
      "\<lparr>mapArgs = Map.empty, mapMultiArgs = Map.empty\<rparr>"
      "\<lparr>command = EVHTTP_REQ_GET, uri = ''/'', connection_peer = None,
         output_headers = [], output_buffer = []\<rparr>" "example_state 1"]
  by (simp add: example_netbase_def example_state_def ClientAllowed_def)

text \<open>
  C3 at concrete requests: the scenarios of the specification (a peer outside the allow
  list, an OPTIONS request, an unknown path, a dispatched request, a full queue).
\<close>

theorem C3_gate_order_witness:
  "http_request_cb example_netbase (example_request EVHTTP_REQ_GET ''/x'' ''10.0.0.5'')
       (example_state 1)
     = Inr ((example_state 1)\<lparr>triggered :=
         [(example_request EVHTTP_REQ_GET ''/x'' ''10.0.0.5'', 403)]\<rparr>)
   \<and> http_request_cb example_netbase (example_request EVHTTP_REQ_OPTIONS ''/'' ''127.0.0.1'')
       (example_state 1)
     = Inr ((example_state 1)\<lparr>triggered :=
         [(example_request EVHTTP_REQ_OPTIONS ''/'' ''127.0.0.1'', 405)]\<rparr>)
   \<and> http_request_cb example_netbase (example_request EVHTTP_REQ_GET ''/x'' ''127.0.0.1'')
       (example_state 1)
     = Inr ((example_state 1)\<lparr>triggered :=
         [(example_request EVHTTP_REQ_GET ''/x'' ''127.0.0.1'', 404)]\<rparr>)
   \<and> http_request_cb example_netbase (example_request EVHTTP_REQ_POST ''/'' ''127.0.0.1'')
       (example_state 1)
     = Inr ((example_state 1)\<lparr>workQueue := Some
         \<lparr>queue = [\<lparr>item_req = HTTPRequest_ctor (example_request EVHTTP_REQ_POST ''/'' ''127.0.0.1''),
                     item_path = [], item_func = 1\<rparr>],
          running = True, maxDepth = 1, numThreads = 0\<rparr>\<rparr>)
   \<and> http_request_cb example_netbase (example_request EVHTTP_REQ_POST ''/'' ''127.0.0.1'')
       (example_state 0)
     = Inr ((example_state 0)\<lparr>triggered :=
         [((example_request EVHTTP_REQ_POST ''/'' ''127.0.0.1'')
             \<lparr>output_buffer := ''Work queue depth exceeded''\<rparr>, 500)]\<rparr>)"
  using C3_gate_order [of example_netbase "example_request EVHTTP_REQ_GET ''/x'' ''10.0.0.5''"
      "example_state 1"]
    C3_gate_order [of example_netbase "example_request EVHTTP_REQ_OPTIONS ''/'' ''127.0.0.1''"
      "example_state 1"]
    C3_gate_order [of example_netbase "example_request EVHTTP_REQ_GET ''/x'' ''127.0.0.1''"
      "example_state 1"]
    C3_gate_order [of example_netbase "example_request EVHTTP_REQ_POST ''/'' ''127.0.0.1''"
      "example_state 1"]
    C3_gate_order [of example_netbase "example_request EVHTTP_REQ_POST ''/'' ''127.0.0.1''"
      "example_state 0"]
  by (simp add: example_netbase_def example_state_def example_request_def ClientAllowed_def
      lookup_spec_def matches_spec_def Depth_def WorkQueue_ctor_def)

text \<open>
  C1 at a concrete request: a lifetime without a reply ends with the synthesized 500, a
  lifetime with one reply sends that reply only, and a second \<open>WriteReply\<close> fails.
\<close>

theorem C1_exactly_one_reply_witness:
  "HTTPRequest_lifetime (example_request EVHTTP_REQ_POST ''/'' ''127.0.0.1'')
       [CallWriteHeader ''Content-Type'' ''application/json''] []
     = Inr [((example_request EVHTTP_REQ_POST ''/'' ''127.0.0.1'')
               \<lparr>output_headers := [(''Content-Type'', ''application/json'')],
                output_buffer := ''Unhandled request''\<rparr>, 500)]
   \<and> HTTPRequest_lifetime (example_request EVHTTP_REQ_POST ''/'' ''127.0.0.1'')
       [CallWriteReply 200 ''ok''] []
     = Inr [((example_request EVHTTP_REQ_POST ''/'' ''127.0.0.1'')
               \<lparr>output_buffer := ''ok''\<rparr>, 200)]
   \<and> request_calls (HTTPRequest_ctor (example_request EVHTTP_REQ_POST ''/'' ''127.0.0.1''))
       [] [] = Inr (HTTPRequest_ctor (example_request EVHTTP_REQ_POST ''/'' ''127.0.0.1''), [])
   \<and> (\<exists>ev. HTTPRequest_dtor
              (HTTPRequest_ctor (example_request EVHTTP_REQ_POST ''/'' ''127.0.0.1'')) []
            = Inr [ev]
          \<and> reply_status ev = 500 \<and> reply_body ev = ''Unhandled request'')
   \<and> WriteReply (HTTPRequest_ctor (example_request EVHTTP_REQ_POST ''/'' ''127.0.0.1''))
        200 ''ok'' []
     = Inr (\<lparr>req = None, replySent = True\<rparr>,
            [((example_request EVHTTP_REQ_POST ''/'' ''127.0.0.1'')
               \<lparr>output_buffer := ''ok''\<rparr>, 200)])
   \<and> WriteReply \<lparr>req = None, replySent = True\<rparr> 200 ''again''
        [((example_request EVHTTP_REQ_POST ''/'' ''127.0.0.1'')
               \<lparr>output_buffer := ''ok''\<rparr>, 200)]
     = Inl AssertionFailed"
  using C1_exactly_one_reply [of "example_request EVHTTP_REQ_POST ''/'' ''127.0.0.1''"
      "[]" "[]"
      "[((example_request EVHTTP_REQ_POST ''/'' ''127.0.0.1'')
               \<lparr>output_buffer := ''Unhandled request''\<rparr>, 500)]"
      "HTTPRequest_ctor (example_request EVHTTP_REQ_POST ''/'' ''127.0.0.1'')" "[]"
      "HTTPRequest_ctor (example_request EVHTTP_REQ_POST ''/'' ''127.0.0.1'')" 200 "''ok''" "[]"
      "\<lparr>req = None, replySent = True\<rparr>"
      "[((example_request EVHTTP_REQ_POST ''/'' ''127.0.0.1'')
               \<lparr>output_buffer := ''ok''\<rparr>, 200)]"
      200 "''again''"
      "[((example_request EVHTTP_REQ_POST ''/'' ''127.0.0.1'')
               \<lparr>output_buffer := ''ok''\<rparr>, 200)]"]
  by (simp add: HTTPRequest_lifetime_def HTTPRequest_ctor_def HTTPRequest_dtor_def
      WriteReply_def WriteHeader_def bindE_def example_request_def HTTP_INTERNAL_def
      reply_status_def reply_body_def)

lemma bind_loop_sockets:
  "fst (snd (bind_loop bs eps net socks lg))
     = socks @ map the (filter (\<lambda>r. r \<noteq> None) (bind_outcomes bs eps net))"
proof (induction eps arbitrary: net socks lg)
  case Nil
  show ?case by simp
next
  case (Cons ep eps)
  obtain host port where ep: "ep = (host, port)" by (cases ep)
  obtain r net' where b: "bs net (if host = [] then None else Some host) port = (r, net')"
    by (cases "bs net (if host = [] then None else Some host) port")
  show ?case
  proof (cases r)
    case None
    with ep b Cons.IH [of net' socks "lg @ [BindFailed host port]"] show ?thesis by simp
  next
    case (Some h)
    with ep b Cons.IH [of net' "socks @ [h]" lg] show ?thesis by simp
  qed
qed

lemma HTTPBindAddresses_result:
  "fst (HTTPBindAddresses bs nb a P net socks)
     = (socks \<noteq> [] \<or> (\<exists>h. Some h \<in> set (bind_outcomes bs (fst (determine_endpoints nb a P)) net)))"
proof -
  obtain eps lg where d: "determine_endpoints nb a P = (eps, lg)"
    by (cases "determine_endpoints nb a P")
  obtain net' socks' lg' where l: "bind_loop bs eps net socks lg = (net', socks', lg')"
    by (cases "bind_loop bs eps net socks lg")
  have "socks' = socks @ map the (filter (\<lambda>r. r \<noteq> None) (bind_outcomes bs eps net))"
    using bind_loop_sockets [of bs eps net socks lg] l by simp
  moreover have "(filter (\<lambda>r. r \<noteq> None) (bind_outcomes bs eps net) \<noteq> [])
      = (\<exists>h. Some h \<in> set (bind_outcomes bs eps net))"
    by (auto simp add: filter_empty_conv)
  ultimately show ?thesis using d l
    by (simp add: HTTPBindAddresses_def)
qed

lemma HTTPBindAddresses_sockets:
  "fst (snd (snd (HTTPBindAddresses bs nb a P net socks)))
     = socks @ map the (filter (\<lambda>r. r \<noteq> None)
                (bind_outcomes bs (fst (determine_endpoints nb a P)) net))"
proof -
  obtain eps lg where d: "determine_endpoints nb a P = (eps, lg)"
    by (cases "determine_endpoints nb a P")
  obtain net' socks' lg' where l: "bind_loop bs eps net socks lg = (net', socks', lg')"
    by (cases "bind_loop bs eps net socks lg")
  have "socks' = socks @ map the (filter (\<lambda>r. r \<noteq> None) (bind_outcomes bs eps net))"
    using bind_loop_sockets [of bs eps net socks lg] l by simp
  then show ?thesis using d l by (simp add: HTTPBindAddresses_def)
qed

lemma sint_nonneg_uint:
  fixes P :: "32 word"
  assumes "0 \<le> sint P"
  shows "sint P = uint P"
proof -
  have a: "word_of_int (sint P) = P" by simp
  have b: "sint P < 2 ^ LENGTH(32)" using sint_lt [of P] by simp
  from word_of_int_inverse [OF a assms b] show ?thesis by simp
qed

lemma port_in_range:
  fixes P :: "32 word"
  assumes "0 \<le> sint P" "sint P < 65536"
  shows "uint (ucast P :: 16 word) = sint P"
proof -
  have e: "sint P = uint P" using assms(1) by (rule sint_nonneg_uint)
  have "uint (ucast P :: 16 word) = take_bit 16 (uint P)"
    by (simp add: unsigned_ucast_eq)
  with e assms show ?thesis by (simp add: take_bit_int_eq_self)
qed

text \<open>
  C8: without \<^verbatim>\<open>-rpcallowip\<close> the endpoints are \<^verbatim>\<open>::1\<close> and \<^verbatim>\<open>127.0.0.1\<close> on the RPC
  port, and a configured \<^verbatim>\<open>-rpcbind\<close> is ignored with the warning logged; with both
  options every \<^verbatim>\<open>-rpcbind\<close> value is split into host and port, the port starting from
  the RPC port; with \<^verbatim>\<open>-rpcallowip\<close> alone the endpoints are \<^verbatim>\<open>::\<close> and
  \<^verbatim>\<open>0.0.0.0\<close>. An RPC port in the range of \<^verbatim>\<open>uint16_t\<close> is the port bound. The
  bound sockets are the old ones followed by the handles of the binds that succeeded, and
  from the empty \<^verbatim>\<open>boundSockets\<close> of a starting process the function returns true
  exactly when at least one bind succeeded (\<^verbatim>\<open>InitHTTPServer\<close> fails when it returns
  false).
\<close>

theorem C8_bind_addresses:
  "(''-rpcallowip'' \<notin> dom (mapArgs a) \<longrightarrow>
      fst (determine_endpoints nb a P) = [(''::1'', ucast P), (''127.0.0.1'', ucast P)]
      \<and> snd (determine_endpoints nb a P)
          = (if ''-rpcbind'' \<in> dom (mapArgs a) then [RpcbindIgnored] else []))
   \<and> (''-rpcallowip'' \<in> dom (mapArgs a) \<and> ''-rpcbind'' \<in> dom (mapArgs a) \<longrightarrow>
      fst (determine_endpoints nb a P)
        = map (\<lambda>i. (snd (SplitHostPort nb i P), ucast (fst (SplitHostPort nb i P))))
            (multi_at a ''-rpcbind''))
   \<and> (''-rpcallowip'' \<in> dom (mapArgs a) \<and> ''-rpcbind'' \<notin> dom (mapArgs a) \<longrightarrow>
      fst (determine_endpoints nb a P) = [(''::'', ucast P), (''0.0.0.0'', ucast P)])
   \<and> (0 \<le> sint P \<and> sint P < 65536 \<longrightarrow> uint (ucast P :: 16 word) = sint P)
   \<and> fst (snd (snd (HTTPBindAddresses bs nb a P net socks)))
       = socks @ map the (filter (\<lambda>r. r \<noteq> None)
                  (bind_outcomes bs (fst (determine_endpoints nb a P)) net))
   \<and> fst (HTTPBindAddresses bs nb a P net [])
       = (\<exists>h. Some h \<in> set (bind_outcomes bs (fst (determine_endpoints nb a P)) net))"
proof -
  have p1: "''-rpcallowip'' \<notin> dom (mapArgs a) \<longrightarrow>
      fst (determine_endpoints nb a P) = [(''::1'', ucast P), (''127.0.0.1'', ucast P)]
      \<and> snd (determine_endpoints nb a P)
          = (if ''-rpcbind'' \<in> dom (mapArgs a) then [RpcbindIgnored] else [])"
    by (simp add: determine_endpoints_def)
  have p2: "''-rpcallowip'' \<in> dom (mapArgs a) \<and> ''-rpcbind'' \<in> dom (mapArgs a) \<longrightarrow>
      fst (determine_endpoints nb a P)
        = map (\<lambda>i. (snd (SplitHostPort nb i P), ucast (fst (SplitHostPort nb i P))))
            (multi_at a ''-rpcbind'')"
    by (simp add: determine_endpoints_def split_def)
  have p3: "''-rpcallowip'' \<in> dom (mapArgs a) \<and> ''-rpcbind'' \<notin> dom (mapArgs a) \<longrightarrow>
      fst (determine_endpoints nb a P) = [(''::'', ucast P), (''0.0.0.0'', ucast P)]"
    by (simp add: determine_endpoints_def)
  have p4: "0 \<le> sint P \<and> sint P < 65536 \<longrightarrow> uint (ucast P :: 16 word) = sint P"
    by (simp add: port_in_range)
  have p5: "fst (snd (snd (HTTPBindAddresses bs nb a P net socks)))
       = socks @ map the (filter (\<lambda>r. r \<noteq> None)
                  (bind_outcomes bs (fst (determine_endpoints nb a P)) net))"
    by (rule HTTPBindAddresses_sockets)
  have p6: "fst (HTTPBindAddresses bs nb a P net [])
       = (\<exists>h. Some h \<in> set (bind_outcomes bs (fst (determine_endpoints nb a P)) net))"
    by (simp add: HTTPBindAddresses_result)
  from p1 p2 p3 p4 p5 p6 show ?thesis by blast
qed

text \<open>
  C8 at the example instance: \<^verbatim>\<open>-rpcbind\<close> without an allow list, both options, the
  allow list alone, and a network stack on which no bind succeeds.
\<close>

theorem C8_bind_addresses_witness:
  "''-rpcallowip'' \<notin> dom (mapArgs (example_args False [''0.0.0.0'']))
   \<and> ''-rpcbind'' \<in> dom (mapArgs (example_args False [''0.0.0.0'']))
   \<and> determine_endpoints example_netbase (example_args False [''0.0.0.0'']) 8332
       = ([(''::1'', 8332), (''127.0.0.1'', 8332)], [RpcbindIgnored])
   \<and> HTTPBindAddresses example_bind example_netbase (example_args False [''0.0.0.0'']) 8332 0 []
       = (True, 1, [0], [RpcbindIgnored, BindFailed ''::1'' 8332])
   \<and> ''-rpcallowip'' \<in> dom (mapArgs (example_args True [''10.0.0.1'', ''::'']))
   \<and> ''-rpcbind'' \<in> dom (mapArgs (example_args True [''10.0.0.1'', ''::'']))
   \<and> fst (determine_endpoints example_netbase (example_args True [''10.0.0.1'', ''::'']) 8332)
       = [(''10.0.0.1'', 8332), (''::'', 8332)]
   \<and> ''-rpcbind'' \<notin> dom (mapArgs (example_args True []))
   \<and> fst (determine_endpoints example_netbase (example_args True []) 8332)
       = [(''::'', 8332), (''0.0.0.0'', 8332)]
   \<and> (0::int) \<le> sint (8332 :: 32 word) \<and> sint (8332 :: 32 word) < 65536
   \<and> uint (ucast (8332 :: 32 word) :: 16 word) = 8332
   \<and> HTTPBindAddresses (\<lambda>n h p. (None :: nat option, n)) example_netbase
        (example_args True []) 8332 (0::nat) []
       = (False, 0, [], [BindFailed ''::'' 8332, BindFailed ''0.0.0.0'' 8332])"
  using C8_bind_addresses [of "example_args False [''0.0.0.0'']" example_netbase 8332
      example_bind 0 "[]"]
    C8_bind_addresses [of "example_args True [''10.0.0.1'', ''::'']" example_netbase 8332
      example_bind 0 "[]"]
    C8_bind_addresses [of "example_args True []" example_netbase 8332
      "(\<lambda>n h p. (None :: nat option, n))" "0::nat" "[]"]
  by (simp add: example_args_def example_netbase_def example_bind_def determine_endpoints_def
      HTTPBindAddresses_def multi_at_def domIff)

section \<open>Properties of the service loop\<close>

lemma multimap_insert_mset: "mset (multimap_insert t f q) = add_mset (t, f) (mset q)"
  by (induction q) auto

lemma multimap_insert_sorted:
  "sorted (map fst q) \<Longrightarrow> sorted (map fst (multimap_insert t f q))"
proof (induction q)
  case Nil
  show ?case by simp
next
  case (Cons a q)
  obtain k g where a: "a = (k, g)" by (cases a)
  have "set (multimap_insert t f q) = insert (t, f) (set q)"
    using multimap_insert_mset [of t f q] by (metis set_mset_mset set_mset_add_mset_insert)
  then have s: "set (map fst (multimap_insert t f q)) = insert t (set (map fst q))"
    by simp
  show ?case
  proof (cases "k \<le> t")
    case True
    with Cons a s show ?thesis by auto
  next
    case False
    with Cons a show ?thesis by auto
  qed
qed

lemma multimap_insert_hd:
  "q \<noteq> [] \<Longrightarrow> fst (hd (multimap_insert t f q)) \<le> fst (hd q)"
  by (cases q) auto

lemma multimap_insert_nonempty: "multimap_insert t f q \<noteq> []"
  by (cases q) (auto split: if_splits)

lemma conserved_loop_head: "conserved (loop_head i s) = conserved s"
  by (simp add: conserved_def loop_head_def loop_exit_def)

lemma conserved_take_front: "conserved s \<Longrightarrow> conserved (take_front i s)"
proof (cases "shouldStop (sched s) \<or> taskQueue (sched s) = []")
  case True
  assume "conserved s"
  with True show ?thesis by (simp add: take_front_def conserved_loop_head)
next
  case False
  assume c: "conserved s"
  from False obtain x q where q: "taskQueue (sched s) = x # q"
    by (cases "taskQueue (sched s)") auto
  with False c show ?thesis
    by (simp add: take_front_def conserved_def)
qed

lemma conserved_pcs: "conserved (s\<lparr>pcs := p\<rparr>) = conserved s"
  by (simp add: conserved_def)

lemma conserved_timed_loop: "conserved s \<Longrightarrow> conserved (timed_loop i s)"
  by (simp add: timed_loop_def conserved_take_front conserved_pcs)

lemma conserved_after_wait: "conserved s \<Longrightarrow> conserved (after_wait i s)"
  by (simp add: after_wait_def conserved_timed_loop conserved_pcs)

lemma conserved_event:
  assumes "conserved s" and "service_event e s = Some s'"
  shows "conserved s'"
proof (cases e)
  case (Tick d)
  with assms show ?thesis by (auto simp add: conserved_def split: if_splits)
next
  case (Post t f)
  with assms show ?thesis by (auto simp add: conserved_def multimap_insert_mset)
next
  case (Halt drain)
  with assms show ?thesis by (auto simp add: conserved_def stop_def)
next
  case (Enter i)
  with assms show ?thesis
    by (auto simp add: conserved_loop_head split: if_splits) (simp add: conserved_def)
next
  case (Wake i)
  with assms show ?thesis by (auto simp add: conserved_after_wait split: if_splits)
next
  case (Notified i)
  with assms show ?thesis
    by (auto simp add: conserved_timed_loop split: if_splits service_pc.splits)
next
  case (Timeout i)
  with assms show ?thesis
    by (auto simp add: conserved_take_front split: if_splits service_pc.splits)
next
  case (Return i)
  with assms show ?thesis by (auto simp add: conserved_loop_head split: if_splits)
next
  case (Throw i)
  with assms show ?thesis by (auto simp add: conserved_def loop_exit_def split: if_splits)
qed

lemma conserved_run:
  "conserved s \<Longrightarrow> service_run es s = Some s' \<Longrightarrow> conserved s'"
proof (induction es arbitrary: s)
  case Nil
  then show ?case by simp
next
  case (Cons e es)
  from Cons.prems(2) obtain s1 where e: "service_event e s = Some s1"
    and r: "service_run es s1 = Some s'"
    by (auto split: option.splits)
  from conserved_event [OF Cons.prems(1) e] have "conserved s1" .
  from Cons.IH [OF this r] show ?case .
qed

lemma single_inv_loop_exit:
  "single_inv s \<Longrightarrow> single_inv (loop_exit 0 s)"
  by (auto simp add: single_inv_def loop_exit_def on_time_def)

lemma single_inv_counter:
  "single_inv (s\<lparr>sched := (sched s)\<lparr>nThreadsServicingQueue := n\<rparr>\<rparr>) = single_inv s"
  by (simp add: single_inv_def on_time_def)

lemma single_inv_loop_head:
  assumes "single_inv s"
  shows "single_inv (loop_head 0 s)"
proof -
  from assms obtain p where p: "pcs s = [p]" by (auto simp add: single_inv_def)
  show ?thesis
  proof (cases "shouldStop (sched s)")
    case True
    with assms show ?thesis by (simp add: loop_head_def single_inv_loop_exit)
  next
    case False
    with assms p show ?thesis
      by (auto simp add: loop_head_def single_inv_def on_time_def)
  qed
qed

lemma single_inv_take_front:
  assumes i: "single_inv s" and w: "pcs s ! 0 = InWaitUntil t" and t: "t \<le> time s"
  shows "single_inv (take_front 0 s)"
proof (cases "shouldStop (sched s) \<or> taskQueue (sched s) = []")
  case True
  with i show ?thesis by (simp add: take_front_def single_inv_loop_head)
next
  case False
  from i w have q: "taskQueue (sched s) \<noteq> []" and h: "fst (hd (taskQueue (sched s))) \<le> t"
    and p: "pcs s = [InWaitUntil t]"
    by (auto simp add: single_inv_def)
  from q obtain x rest where x: "taskQueue (sched s) = x # rest"
    by (cases "taskQueue (sched s)") auto
  from h x t have "fst x \<le> time s" by simp
  with False i p x show ?thesis
    by (auto simp add: take_front_def single_inv_def on_time_def)
qed

lemma single_inv_timed_loop:
  assumes "single_inv s"
  shows "single_inv (timed_loop 0 s)"
proof -
  from assms obtain p where p: "pcs s = [p]" by (auto simp add: single_inv_def)
  show ?thesis
  proof (cases "\<not> shouldStop (sched s) \<and> taskQueue (sched s) \<noteq> []")
    case True
    with assms p show ?thesis
      by (auto simp add: timed_loop_def single_inv_def on_time_def)
  next
    case False
    then have "timed_loop 0 s = loop_head 0 s"
      by (auto simp add: timed_loop_def take_front_def)
    with assms show ?thesis by (simp add: single_inv_loop_head)
  qed
qed

lemma single_inv_after_wait:
  assumes "single_inv s"
  shows "single_inv (after_wait 0 s)"
proof -
  from assms obtain p where p: "pcs s = [p]" by (auto simp add: single_inv_def)
  show ?thesis
  proof (cases "\<not> shouldStop (sched s) \<and> taskQueue (sched s) = []")
    case True
    with assms p show ?thesis
      by (auto simp add: after_wait_def single_inv_def on_time_def)
  next
    case False
    then have "after_wait 0 s = timed_loop 0 s" by (auto simp add: after_wait_def)
    with assms show ?thesis by (simp add: single_inv_timed_loop)
  qed
qed

lemma single_inv_index: "single_inv s \<Longrightarrow> i < length (pcs s) \<Longrightarrow> i = 0"
  by (auto simp add: single_inv_def)

lemma single_inv_event:
  assumes inv: "single_inv s" and ev: "service_event e s = Some s'"
  shows "single_inv s'"
proof (cases e)
  case (Tick d)
  with assms show ?thesis
    by (auto simp add: single_inv_def on_time_def split: if_splits)
next
  case (Post t f)
  from inv obtain p where p: "pcs s = [p]"
    and w: "\<forall>u. p = InWaitUntil u \<longrightarrow>
              taskQueue (sched s) \<noteq> [] \<and> fst (hd (taskQueue (sched s))) \<le> u"
    and so: "sorted (map fst (taskQueue (sched s)))" and ot: "on_time s"
    by (auto simp add: single_inv_def)
  have s': "s' = s\<lparr>sched := (sched s)\<lparr>taskQueue := multimap_insert t f (taskQueue (sched s))\<rparr>,
             posted := posted s @ [(t, f)]\<rparr>"
    using ev Post by simp
  have "\<forall>u. p = InWaitUntil u \<longrightarrow>
      multimap_insert t f (taskQueue (sched s)) \<noteq> []
      \<and> fst (hd (multimap_insert t f (taskQueue (sched s)))) \<le> u"
  proof (intro allI impI)
    fix u assume "p = InWaitUntil u"
    with w have q: "taskQueue (sched s) \<noteq> []" and h: "fst (hd (taskQueue (sched s))) \<le> u"
      by simp_all
    from multimap_insert_hd [OF q, of t f] h
    show "multimap_insert t f (taskQueue (sched s)) \<noteq> []
      \<and> fst (hd (multimap_insert t f (taskQueue (sched s)))) \<le> u"
      by (simp add: multimap_insert_nonempty)
  qed
  with p so ot show ?thesis
    unfolding s' by (simp add: single_inv_def on_time_def multimap_insert_sorted)
next
  case (Halt drain)
  with assms show ?thesis
    by (auto simp add: single_inv_def on_time_def stop_def)
next
  case (Enter i)
  with ev have i: "i < length (pcs s)" by (simp split: if_splits)
  with inv have "i = 0" by (rule single_inv_index)
  with ev Enter inv show ?thesis
    by (auto simp add: single_inv_loop_head single_inv_counter split: if_splits)
next
  case (Wake i)
  with ev have i: "i < length (pcs s)" by (simp split: if_splits)
  with inv have "i = 0" by (rule single_inv_index)
  with ev Wake inv show ?thesis
    by (auto simp add: single_inv_after_wait split: if_splits)
next
  case (Notified i)
  with ev have i: "i < length (pcs s)" by (simp split: if_splits)
  with inv have "i = 0" by (rule single_inv_index)
  with ev Notified inv show ?thesis
    by (auto simp add: single_inv_timed_loop split: if_splits service_pc.splits)
next
  case (Timeout i)
  with ev have i: "i < length (pcs s)" by (simp split: if_splits)
  with inv have "i = 0" by (rule single_inv_index)
  with ev Timeout inv show ?thesis
    by (auto simp add: single_inv_take_front split: if_splits service_pc.splits)
next
  case (Return i)
  with ev have i: "i < length (pcs s)" by (simp split: if_splits)
  with inv have "i = 0" by (rule single_inv_index)
  with ev Return inv show ?thesis
    by (auto simp add: single_inv_loop_head split: if_splits)
next
  case (Throw i)
  with ev have i: "i < length (pcs s)" by (simp split: if_splits)
  with inv have "i = 0" by (rule single_inv_index)
  with ev Throw inv show ?thesis
    by (auto simp add: single_inv_loop_exit split: if_splits)
qed

lemma single_inv_run:
  "single_inv s \<Longrightarrow> service_run es s = Some s' \<Longrightarrow> single_inv s'"
proof (induction es arbitrary: s)
  case Nil
  then show ?case by simp
next
  case (Cons e es)
  from Cons.prems(2) obtain s1 where e: "service_event e s = Some s1"
    and r: "service_run es s1 = Some s'"
    by (auto split: option.splits)
  from single_inv_event [OF Cons.prems(1) e] have "single_inv s1" .
  from Cons.IH [OF this r] show ?case .
qed

lemma single_inv_init: "single_inv (service_init 1 t0)"
  by (simp add: single_inv_def service_init_def CScheduler_ctor_def on_time_def)

lemma conserved_init: "conserved (service_init n t0)"
  by (simp add: conserved_def service_init_def CScheduler_ctor_def)

text \<open>
  With one service thread every task is taken at its key or later, whatever the other
  threads post and whenever the waits return.
\<close>

lemma one_service_thread_on_time:
  assumes "service_run es (service_init 1 t0) = Some s"
  shows "\<forall>x\<in>set (started s). fst (fst x) \<le> snd x"
  using single_inv_run [OF single_inv_init assms] by (simp add: single_inv_def on_time_def)

text \<open>
  With any number of service threads the tasks taken are among the tasks posted, counted
  with multiplicity: no posted task is taken twice.
\<close>

lemma started_at_most_once:
  assumes "service_run es (service_init n t0) = Some s"
  shows "mset (map fst (started s)) \<subseteq># mset (posted s)"
proof -
  from conserved_run [OF conserved_init assms]
  have "mset (map fst (started s)) + mset (taskQueue (sched s)) = mset (posted s)"
    by (simp add: conserved_def)
  then show ?thesis by (metis mset_subset_eq_add_left)
qed

text \<open>
  The same tasks with one service thread: its second wait cannot time out at time 100,
  and the task posted for 200 is taken at 200.
\<close>

lemma one_service_thread_example:
  "service_run
     [Post 100 (UserFn (0::nat)), Post 200 (UserFn 1), Enter 0, Tick 100, Timeout 0, Return 0,
      Timeout 0]
     (service_init 1 0) = None
   \<and> service_run
     [Post 100 (UserFn (0::nat)), Post 200 (UserFn 1), Enter 0, Tick 100, Timeout 0, Return 0,
      Tick 100, Timeout 0]
     (service_init 1 0)
   = Some \<lparr>sched = \<lparr>taskQueue = [], nThreadsServicingQueue = 1, stopRequested = False,
                    stopWhenEmpty = False\<rparr>,
           time = 200, pcs = [InCall],
           posted = [(100, UserFn 0), (200, UserFn 1)],
           started = [((100, UserFn 0), 100), ((200, UserFn 1), 200)]\<rparr>"
  by (simp add: service_init_def CScheduler_ctor_def loop_head_def take_front_def
      shouldStop_def)

text \<open>
  C4 says that a task posted with deadline \<open>t\<close> is never invoked before \<open>t\<close> and is
  executed at most once. On two service threads the first half fails: tasks are posted
  for 100 and for 200, both threads enter
  \<^verbatim>\<open>wait_until\<close> for the key 100, and at time 100 both waits time out. The thread that
  gets the mutex first takes the task posted for 100. The other thread leaves its wait
  loop as well, finds the queue not empty, and takes the first task, which is now the one
  posted for 200: it is taken at time 100.
\<close>

theorem C4_two_service_threads_early_start:
  "service_run
     [Post 100 (UserFn (0::nat)), Post 200 (UserFn 1), Enter 0, Enter 1, Tick 100,
      Timeout 1, Timeout 0]
     (service_init 2 0)
   = Some \<lparr>sched = \<lparr>taskQueue = [], nThreadsServicingQueue = 2, stopRequested = False,
                    stopWhenEmpty = False\<rparr>,
           time = 100, pcs = [InCall, InCall],
           posted = [(100, UserFn 0), (200, UserFn 1)],
           started = [((100, UserFn 0), 100), ((200, UserFn 1), 100)]\<rparr>"
  by (simp add: service_init_def CScheduler_ctor_def loop_head_def take_front_def
      shouldStop_def numeral_2_eq_2)

section \<open>Properties of scheduleEvery\<close>







end
